theory Spec2Isabelle
  imports Main "HOL-Library.Word" "HOL-Library.AList"
begin

section \<open>The gpio-dbus daemon: data model\<close>

text \<open>
  The embedding follows \<^verbatim>\<open>src/dbus/gpio-dbus.c\<close>. Pointers are natural numbers
  with \<open>0\<close> for the null pointer, \<^verbatim>\<open>guint\<close> is a 32-bit word, C strings are
  \<open>string\<close>. Calls into libgpiod, GLib, GDBus and GUdev are not part of the file: what
  they return is taken from an environment, and every such call is appended to a trace,
  in program order, so that the order of the calls can be stated. Debug messages and the
  release of memory (\<^verbatim>\<open>g_debug\<close>, \<^verbatim>\<open>g_free\<close>, \<^verbatim>\<open>g_object_unref\<close>,
  \<^verbatim>\<open>g_list_free\<close>) leave no mark in the model.
\<close>

type_synonym pointer = nat

abbreviation NULL :: pointer where
  "NULL \<equiv> 0"

type_synonym guint = "32 word"

text \<open>\<^verbatim>\<open>struct ChipCtx\<close>.\<close>

record ChipCtx =
  handle :: pointer
  obj_id :: guint
  dbus_conn :: pointer

text \<open>
  A \<^verbatim>\<open>GUdevDevice\<close>, as far as the daemon reads it: the two accessors it calls.
  \<^verbatim>\<open>g_udev_device_get_device_file\<close> returns \<^verbatim>\<open>NULL\<close> (here \<open>None\<close>) for a
  device without a device file.
\<close>

record GUdevDevice =
  g_udev_device_get_name :: string
  g_udev_device_get_device_file :: "string option"

text \<open>The messages of the three \<^verbatim>\<open>g_warning\<close> calls and of the calls of \<^verbatim>\<open>die\<close>.\<close>

datatype message =
    Error_Opening_Device string
  | Error_Registering_Object
  | Unknown_Action string
  | Unable_To_Connect
  | Connection_Closed
  | Name_Lost_On_Bus string
  | Option_Parsing_Failed
  | Error_Parsing_Xml

text \<open>
  The calls the daemon makes to the outside, with their results where the daemon reads
  them. \<open>Table_Insert\<close> and \<open>Table_Remove\<close> mark the moment the hash table itself
  changes, which precedes the call of the value destructor.
\<close>

datatype effect =
    Chip_Open string pointer
  | Chip_Close pointer
  | Register_Object pointer string guint
  | Unregister_Object pointer guint
  | Table_Insert string
  | Table_Remove string
  | Signal_Connect_Uevent
  | Query_By_Subsystem string
  | Main_Loop_Quit
  | Log_Warning message
  | Log_Critical message

text \<open>
  \<^verbatim>\<open>struct MainLoopCtx\<close>. \<open>loop\<close> is the running flag of the \<^verbatim>\<open>GMainLoop\<close>,
  \<open>udev\<close> tells whether \<^verbatim>\<open>on_uevent\<close> is connected to the client's signal,
  \<open>chips\<close> is the hash table as an association list with one pair per key. The fields
  \<^verbatim>\<open>bus_id\<close> and \<^verbatim>\<open>introspect\<close> are written once in \<^verbatim>\<open>main\<close> and decide
  nothing below. \<open>trace\<close> is the log of effects so far, oldest first.
\<close>

record MainLoopCtx =
  loop :: bool
  udev :: bool
  bus :: pointer
  chips :: "(string \<times> ChipCtx) list"
  trace :: "effect list"

text \<open>
  What the libraries answer may depend on everything that happened before, so each
  answer is a function of the trace at the moment of the call.
\<close>

record environment =
  gpiod_chip_open_by_name :: "effect list \<Rightarrow> string \<Rightarrow> pointer"
  g_dbus_connection_register_object :: "effect list \<Rightarrow> pointer \<Rightarrow> string \<Rightarrow> guint"

text \<open>
  A callback returns to the loop, or the process ends inside it: \<^verbatim>\<open>exit\<close> with a
  status (from \<^verbatim>\<open>die\<close> or from \<^verbatim>\<open>main\<close>), or \<^verbatim>\<open>abort\<close> from a failed
  \<^verbatim>\<open>g_assert_true\<close>. \<open>Running\<close> is the loop waiting for an event that has not come.
\<close>

datatype outcome =
    Return MainLoopCtx
  | Exit int MainLoopCtx
  | Abort MainLoopCtx
  | Running MainLoopCtx

definition EXIT_SUCCESS :: int where
  "EXIT_SUCCESS = 0"

definition EXIT_FAILURE :: int where
  "EXIT_FAILURE = 1"

fun state_of :: "outcome \<Rightarrow> MainLoopCtx" where
  "state_of (Return c) = c"
| "state_of (Exit n c) = c"
| "state_of (Abort c) = c"
| "state_of (Running c) = c"

fun aborted :: "outcome \<Rightarrow> bool" where
  "aborted (Abort c) = True"
| "aborted _ = False"

fun exit_status :: "outcome \<Rightarrow> int option" where
  "exit_status (Exit n c) = Some n"
| "exit_status _ = None"

section \<open>The functions of gpio-dbus.c\<close>

definition die :: "message \<Rightarrow> MainLoopCtx \<Rightarrow> outcome" where
  "die msg ctx = Exit EXIT_FAILURE (ctx\<lparr>trace := trace ctx @ [Log_Critical msg]\<rparr>)"

definition on_sigterm :: "MainLoopCtx \<Rightarrow> outcome" where
  "on_sigterm ctx = Return (ctx\<lparr>loop := False, trace := trace ctx @ [Main_Loop_Quit]\<rparr>)"

definition on_sigint :: "MainLoopCtx \<Rightarrow> outcome" where
  "on_sigint ctx = Return (ctx\<lparr>loop := False, trace := trace ctx @ [Main_Loop_Quit]\<rparr>)"

definition on_sighup :: "MainLoopCtx \<Rightarrow> outcome" where
  "on_sighup ctx = Return ctx"

text \<open>
  The property getter. The three libgpiod accessors read the chip behind the handle at
  the moment of the call; \<open>gpiod\<close> is that memory, a function from handles to chips.
  The \<^verbatim>\<open>GError **\<close> argument is unused: it is returned as it came.
\<close>

record gpiod_chip =
  gpiod_chip_name :: string
  gpiod_chip_label :: string
  gpiod_chip_num_lines :: "32 word"

datatype GVariant = Variant_String string | Variant_Uint32 "32 word"

definition on_chip_property_get ::
  "(pointer \<Rightarrow> gpiod_chip) \<Rightarrow> string \<Rightarrow> 'e \<Rightarrow> ChipCtx \<Rightarrow> GVariant option \<times> 'e" where
  "on_chip_property_get gpiod property error chip =
     (if property = ''Name'' then
        (Some (Variant_String (gpiod_chip_name (gpiod (handle chip)))), error)
      else if property = ''Label'' then
        (Some (Variant_String (gpiod_chip_label (gpiod (handle chip)))), error)
      else if property = ''NumLines'' then
        (Some (Variant_Uint32 (gpiod_chip_num_lines (gpiod (handle chip)))), error)
      else (None, error))"

definition is_gpiochip_device :: "GUdevDevice \<Rightarrow> bool" where
  "is_gpiochip_device dev = (g_udev_device_get_device_file dev \<noteq> None)"

text \<open>
  \<^verbatim>\<open>destroy_chip_object\<close>: the value destructor of the hash table, also called on
  a context that never reached the table. It works on the trace only.
\<close>

definition destroy_chip_object :: "ChipCtx \<Rightarrow> effect list \<Rightarrow> effect list" where
  "destroy_chip_object chip tr =
     (let tr1 = (if handle chip \<noteq> NULL then tr @ [Chip_Close (handle chip)] else tr);
          tr2 = (if obj_id chip \<noteq> 0
                 then tr1 @ [Unregister_Object (dbus_conn chip) (obj_id chip)] else tr1)
      in tr2)"

text \<open>
  The hash table is created by
  \<^verbatim>\<open>g_hash_table_new_full(g_str_hash, g_str_equal, g_free, destroy_chip_object)\<close>.
  \<^verbatim>\<open>g_hash_table_insert\<close> on a key that exists replaces its value, destroys the old
  value and returns \<^verbatim>\<open>FALSE\<close>; \<^verbatim>\<open>g_hash_table_remove\<close> takes the entry out,
  destroys its value and returns \<^verbatim>\<open>TRUE\<close>, or returns \<^verbatim>\<open>FALSE\<close> when the key is
  not there; \<^verbatim>\<open>g_hash_table_destroy\<close> destroys every value.
\<close>

definition g_hash_table_insert ::
  "(string \<times> ChipCtx) list \<Rightarrow> string \<Rightarrow> ChipCtx \<Rightarrow> effect list
     \<Rightarrow> (string \<times> ChipCtx) list \<times> effect list \<times> bool" where
  "g_hash_table_insert table key val tr =
     (case map_of table key of
        None \<Rightarrow> (table @ [(key, val)], tr @ [Table_Insert key], True)
      | Some old \<Rightarrow>
          (AList.update key val table,
           destroy_chip_object old (tr @ [Table_Insert key]), False))"

definition g_hash_table_remove ::
  "(string \<times> ChipCtx) list \<Rightarrow> string \<Rightarrow> effect list
     \<Rightarrow> (string \<times> ChipCtx) list \<times> effect list \<times> bool" where
  "g_hash_table_remove table key tr =
     (case map_of table key of
        None \<Rightarrow> (table, tr, False)
      | Some old \<Rightarrow>
          (AList.delete key table, destroy_chip_object old (tr @ [Table_Remove key]), True))"

fun g_hash_table_destroy :: "(string \<times> ChipCtx) list \<Rightarrow> effect list \<Rightarrow> effect list" where
  "g_hash_table_destroy [] tr = tr"
| "g_hash_table_destroy ((key, val) # table) tr =
     g_hash_table_destroy table (destroy_chip_object val (tr @ [Table_Remove key]))"

definition register_chip_object :: "environment \<Rightarrow> GUdevDevice \<Rightarrow> MainLoopCtx \<Rightarrow> outcome" where
  "register_chip_object env dev ctx =
     (let devname = g_udev_device_get_name dev;
          chip = \<lparr>handle = NULL, obj_id = 0, dbus_conn = bus ctx\<rparr>;
          h = gpiod_chip_open_by_name env (trace ctx) devname;
          chip = chip\<lparr>handle := h\<rparr>;
          tr = trace ctx @ [Chip_Open devname h]
      in if handle chip = NULL then
           Return (ctx\<lparr>trace := destroy_chip_object chip tr
                                   @ [Log_Warning (Error_Opening_Device devname)]\<rparr>)
         else
           let obj_path = ''/org/gpiod/'' @ devname;
               oid = g_dbus_connection_register_object env tr (bus ctx) obj_path;
               chip = chip\<lparr>obj_id := oid\<rparr>;
               tr = tr @ [Register_Object (bus ctx) obj_path oid]
           in if obj_id chip = 0 then
                Return (ctx\<lparr>trace := destroy_chip_object chip tr
                                        @ [Log_Warning Error_Registering_Object]\<rparr>)
              else
                (case g_hash_table_insert (chips ctx) devname chip tr of
                   (table, tr, ret) \<Rightarrow>
                     if ret then Return (ctx\<lparr>chips := table, trace := tr\<rparr>)
                     else Abort (ctx\<lparr>chips := table, trace := tr\<rparr>)))"

definition destroy_chip_dev :: "GUdevDevice \<Rightarrow> MainLoopCtx \<Rightarrow> outcome" where
  "destroy_chip_dev dev ctx =
     (let devname = g_udev_device_get_name dev
      in case g_hash_table_remove (chips ctx) devname (trace ctx) of
           (table, tr, ret) \<Rightarrow>
             if ret then Return (ctx\<lparr>chips := table, trace := tr\<rparr>)
             else Abort (ctx\<lparr>chips := table, trace := tr\<rparr>))"

definition create_chip_list_cb :: "environment \<Rightarrow> GUdevDevice \<Rightarrow> MainLoopCtx \<Rightarrow> outcome" where
  "create_chip_list_cb env dev ctx =
     (if is_gpiochip_device dev then register_chip_object env dev ctx else Return ctx)"

text \<open>\<^verbatim>\<open>g_list_foreach(devs, create_chip_list_cb, ctx)\<close>; nothing runs after an abort.\<close>

fun g_list_foreach :: "environment \<Rightarrow> GUdevDevice list \<Rightarrow> MainLoopCtx \<Rightarrow> outcome" where
  "g_list_foreach env [] ctx = Return ctx"
| "g_list_foreach env (dev # devs) ctx =
     (case create_chip_list_cb env dev ctx of
        Return ctx' \<Rightarrow> g_list_foreach env devs ctx'
      | other \<Rightarrow> other)"

definition on_uevent :: "environment \<Rightarrow> string \<Rightarrow> GUdevDevice \<Rightarrow> MainLoopCtx \<Rightarrow> outcome" where
  "on_uevent env action dev ctx =
     (if \<not> is_gpiochip_device dev then Return ctx
      else if action = ''add'' then register_chip_object env dev ctx
      else if action = ''remove'' then destroy_chip_dev dev ctx
      else Return (ctx\<lparr>trace := trace ctx @ [Log_Warning (Unknown_Action action)]\<rparr>))"

definition on_bus_acquired :: "pointer \<Rightarrow> MainLoopCtx \<Rightarrow> outcome" where
  "on_bus_acquired conn ctx = Return (ctx\<lparr>bus := conn\<rparr>)"

text \<open>
  \<^verbatim>\<open>on_name_acquired\<close>; \<open>devs\<close> is what \<^verbatim>\<open>g_udev_client_query_by_subsystem\<close>
  returns.
\<close>

definition on_name_acquired :: "environment \<Rightarrow> GUdevDevice list \<Rightarrow> MainLoopCtx \<Rightarrow> outcome" where
  "on_name_acquired env devs ctx =
     (let ctx = ctx\<lparr>udev := True, trace := trace ctx @ [Signal_Connect_Uevent]\<rparr>;
          ctx = ctx\<lparr>trace := trace ctx @ [Query_By_Subsystem ''gpio'']\<rparr>
      in g_list_foreach env devs ctx)"

text \<open>
  \<^verbatim>\<open>on_name_lost\<close>; \<open>closed\<close> is what \<^verbatim>\<open>g_dbus_connection_is_closed(conn)\<close>
  returns.
\<close>

definition on_name_lost :: "pointer \<Rightarrow> bool \<Rightarrow> string \<Rightarrow> MainLoopCtx \<Rightarrow> outcome" where
  "on_name_lost conn closed name ctx =
     (if conn = NULL then die Unable_To_Connect ctx
      else if closed then die Connection_Closed ctx
      else die (Name_Lost_On_Bus name) ctx)"

section \<open>The main loop\<close>

text \<open>
  What the loop dispatches: the three signals, the three callbacks of
  \<^verbatim>\<open>g_bus_own_name\<close> and the \<^verbatim>\<open>uevent\<close> signal of the udev client.
  \<open>Name_Acquired\<close> carries the device list the query returns during the callback,
  \<open>Name_Lost\<close> the connection and whether it is closed.
\<close>

datatype event =
    SIGTERM
  | SIGINT
  | SIGHUP
  | Bus_Acquired pointer
  | Name_Acquired "GUdevDevice list"
  | Name_Lost pointer bool
  | Uevent string GUdevDevice

text \<open>
  A uevent reaches \<^verbatim>\<open>on_uevent\<close> only once \<^verbatim>\<open>g_signal_connect\<close> has connected
  it. The bus name is the one \<^verbatim>\<open>main\<close> asks for.
\<close>

fun dispatch :: "environment \<Rightarrow> event \<Rightarrow> MainLoopCtx \<Rightarrow> outcome" where
  "dispatch env SIGTERM ctx = on_sigterm ctx"
| "dispatch env SIGINT ctx = on_sigint ctx"
| "dispatch env SIGHUP ctx = on_sighup ctx"
| "dispatch env (Bus_Acquired conn) ctx = on_bus_acquired conn ctx"
| "dispatch env (Name_Acquired devs) ctx = on_name_acquired env devs ctx"
| "dispatch env (Name_Lost conn closed) ctx = on_name_lost conn closed ''org.gpiod'' ctx"
| "dispatch env (Uevent action dev) ctx =
     (if udev ctx then on_uevent env action dev ctx else Return ctx)"

text \<open>
  \<^verbatim>\<open>g_main_loop_run\<close> sets the running flag and dispatches one event after the other
  while the flag is set; \<^verbatim>\<open>g_main_loop_quit\<close> clears it. The events are those that
  arrive; when they are used up and the flag is still set the loop waits.
\<close>

fun main_loop :: "environment \<Rightarrow> event list \<Rightarrow> MainLoopCtx \<Rightarrow> outcome" where
  "main_loop env [] ctx = (if loop ctx then Running ctx else Return ctx)"
| "main_loop env (e # es) ctx =
     (if \<not> loop ctx then Return ctx
      else case dispatch env e ctx of
             Return ctx' \<Rightarrow> main_loop env es ctx'
           | other \<Rightarrow> other)"

definition g_main_loop_run :: "environment \<Rightarrow> event list \<Rightarrow> MainLoopCtx \<Rightarrow> outcome" where
  "g_main_loop_run env events ctx = main_loop env events (ctx\<lparr>loop := True\<rparr>)"

text \<open>The context after \<^verbatim>\<open>memset\<close> and \<^verbatim>\<open>g_hash_table_new_full\<close>.\<close>

definition initial_ctx :: MainLoopCtx where
  "initial_ctx = \<lparr>loop = False, udev = False, bus = NULL, chips = [], trace = []\<rparr>"

text \<open>
  \<^verbatim>\<open>main\<close>. \<open>opts_ok\<close> is what \<^verbatim>\<open>g_option_context_parse\<close> returns and \<open>xml_ok\<close>
  whether \<^verbatim>\<open>g_dbus_node_info_new_for_xml\<close> returns a node.
\<close>

definition main :: "environment \<Rightarrow> bool \<Rightarrow> bool \<Rightarrow> event list \<Rightarrow> outcome" where
  "main env opts_ok xml_ok events =
     (if \<not> opts_ok then die Option_Parsing_Failed initial_ctx
      else if \<not> xml_ok then die Error_Parsing_Xml initial_ctx
      else case g_main_loop_run env events initial_ctx of
             Return ctx \<Rightarrow>
               Exit EXIT_SUCCESS
                 (ctx\<lparr>udev := False, chips := [],
                      trace := g_hash_table_destroy (chips ctx) (trace ctx)\<rparr>)
           | other \<Rightarrow> other)"

section \<open>What a trace says about the resources\<close>

text \<open>
  The chip handles that are open and the bus objects that are registered after a trace:
  a successful open or registration adds one, a close or an unregistration takes it away.
\<close>

fun open_step :: "pointer set \<Rightarrow> effect \<Rightarrow> pointer set" where
  "open_step S (Chip_Open name h) = (if h \<noteq> NULL then insert h S else S)"
| "open_step S (Chip_Close h) = S - {h}"
| "open_step S _ = S"

definition open_handles :: "effect list \<Rightarrow> pointer set" where
  "open_handles tr = foldl open_step {} tr"

fun registered_step :: "(pointer \<times> guint) set \<Rightarrow> effect \<Rightarrow> (pointer \<times> guint) set" where
  "registered_step S (Register_Object conn path oid) =
     (if oid \<noteq> 0 then insert (conn, oid) S else S)"
| "registered_step S (Unregister_Object conn oid) = S - {(conn, oid)}"
| "registered_step S _ = S"

definition registered_objects :: "effect list \<Rightarrow> (pointer \<times> guint) set" where
  "registered_objects tr = foldl registered_step {} tr"

text \<open>
  The libraries hand out a handle that is not open and an object id that is not
  registered at the moment of the call, or they fail.
\<close>

definition fresh_environment :: "environment \<Rightarrow> bool" where
  "fresh_environment env =
     ((\<forall>tr name. gpiod_chip_open_by_name env tr name \<notin> open_handles tr) \<and>
      (\<forall>tr conn path.
         (conn, g_dbus_connection_register_object env tr conn path) \<notin> registered_objects tr))"

definition entry_valid :: "ChipCtx \<Rightarrow> bool" where
  "entry_valid chip = (handle chip \<noteq> NULL \<and> obj_id chip \<noteq> 0)"

definition object_of :: "ChipCtx \<Rightarrow> pointer \<times> guint" where
  "object_of chip = (dbus_conn chip, obj_id chip)"

text \<open>
  The registry invariant. Every entry has a handle and an object id; and, with the
  resources counted: one entry per key, no handle and no object shared by two entries,
  and the entries' handles and objects are exactly the open handles and the registered
  objects.
\<close>

definition registry_valid :: "(string \<times> ChipCtx) list \<Rightarrow> bool" where
  "registry_valid table = list_all (\<lambda>(key, chip). entry_valid chip) table"

definition consistent :: "MainLoopCtx \<Rightarrow> bool" where
  "consistent ctx =
     (distinct (map fst (chips ctx)) \<and>
      registry_valid (chips ctx) \<and>
      distinct (map (\<lambda>(key, chip). handle chip) (chips ctx)) \<and>
      distinct (map (\<lambda>(key, chip). object_of chip) (chips ctx)) \<and>
      open_handles (trace ctx) = set (map (\<lambda>(key, chip). handle chip) (chips ctx)) \<and>
      registered_objects (trace ctx) = set (map (\<lambda>(key, chip). object_of chip) (chips ctx)))"

text \<open>The position of the first occurrence of an effect in a trace.\<close>

fun first_index :: "effect \<Rightarrow> effect list \<Rightarrow> nat option" where
  "first_index e [] = None"
| "first_index e (x # xs) =
     (if x = e then Some 0 else map_option Suc (first_index e xs))"

definition happens_before :: "effect \<Rightarrow> effect \<Rightarrow> effect list \<Rightarrow> bool" where
  "happens_before a b tr =
     (case (first_index a tr, first_index b tr) of
        (Some i, Some j) \<Rightarrow> i < j
      | _ \<Rightarrow> False)"

section \<open>A concrete machine\<close>

text \<open>
  An environment in which every open and every registration succeeds with the next
  number, as long as that number is free.
\<close>

definition good_env :: environment where
  "good_env =
     \<lparr>gpiod_chip_open_by_name =
        (\<lambda>tr name. let h = Suc (length tr) in if h \<in> open_handles tr then NULL else h),
      g_dbus_connection_register_object =
        (\<lambda>tr conn path. let oid = word_of_nat (Suc (length tr))
                         in if (conn, oid) \<in> registered_objects tr then 0 else oid)\<rparr>"

text \<open>Environments in which the open, or the registration, always fails.\<close>

definition no_open_env :: environment where
  "no_open_env =
     \<lparr>gpiod_chip_open_by_name = (\<lambda>tr name. NULL),
      g_dbus_connection_register_object = (\<lambda>tr conn path. 0)\<rparr>"

definition no_register_env :: environment where
  "no_register_env =
     \<lparr>gpiod_chip_open_by_name = (\<lambda>tr name. 5),
      g_dbus_connection_register_object = (\<lambda>tr conn path. 0)\<rparr>"

definition gpiochip0 :: GUdevDevice where
  "gpiochip0 = \<lparr>g_udev_device_get_name = ''gpiochip0'',
                g_udev_device_get_device_file = Some ''/dev/gpiochip0''\<rparr>"

definition gpiochip1 :: GUdevDevice where
  "gpiochip1 = \<lparr>g_udev_device_get_name = ''gpiochip1'',
                g_udev_device_get_device_file = Some ''/dev/gpiochip1''\<rparr>"

text \<open>The legacy sysfs device of a chip: no device file.\<close>

definition gpiochip496 :: GUdevDevice where
  "gpiochip496 = \<lparr>g_udev_device_get_name = ''gpiochip496'',
                  g_udev_device_get_device_file = None\<rparr>"

text \<open>The context once the bus connection \<open>7\<close> is there and the name is acquired.\<close>

definition active_ctx :: MainLoopCtx where
  "active_ctx = \<lparr>loop = True, udev = True, bus = 7, chips = [], trace = []\<rparr>"

text \<open>
  The effects an add of one of the devices \<open>names\<close> can have: nothing that subscribes,
  queries or stops the loop, and no open or insertion under another name.
\<close>

fun add_effect :: "string set \<Rightarrow> effect \<Rightarrow> bool" where
  "add_effect names (Chip_Open name h) = (name \<in> names)"
| "add_effect names (Table_Insert name) = (name \<in> names)"
| "add_effect names (Chip_Close h) = True"
| "add_effect names (Register_Object conn path oid) = True"
| "add_effect names (Unregister_Object conn oid) = True"
| "add_effect names (Log_Warning msg) = True"
| "add_effect names _ = False"

text \<open>Two states of the chip memory: the line count of chip \<open>1\<close> differs.\<close>

definition gpiod_then :: "pointer \<Rightarrow> gpiod_chip" where
  "gpiod_then p = \<lparr>gpiod_chip_name = ''gpiochip0'', gpiod_chip_label = ''pinctrl'',
                   gpiod_chip_num_lines = 32\<rparr>"

definition gpiod_now :: "pointer \<Rightarrow> gpiod_chip" where
  "gpiod_now p = \<lparr>gpiod_chip_name = ''gpiochip0'', gpiod_chip_label = ''pinctrl'',
                  gpiod_chip_num_lines = 54\<rparr>"

text \<open>The names of the devices of a list that have a device file.\<close>

definition chip_names :: "GUdevDevice list \<Rightarrow> string set" where
  "chip_names devs = g_udev_device_get_name ` {d \<in> set devs. is_gpiochip_device d}"

text \<open>The context after \<open>gpiochip0\<close> was added to \<open>active_ctx\<close> under \<open>good_env\<close>.\<close>

definition one_chip_ctx :: MainLoopCtx where
  "one_chip_ctx =
     \<lparr>loop = True, udev = True, bus = 7,
      chips = [(''gpiochip0'', \<lparr>handle = 1, obj_id = 2, dbus_conn = 7\<rparr>)],
      trace = [Chip_Open ''gpiochip0'' 1, Register_Object 7 ''/org/gpiod/gpiochip0'' 2,
               Table_Insert ''gpiochip0'']\<rparr>"

text \<open>The context at the moment the bus name is granted.\<close>

definition connected_ctx :: MainLoopCtx where
  "connected_ctx = \<lparr>loop = True, udev = False, bus = 7, chips = [], trace = []\<rparr>"

section \<open>The device-file filter\<close>

text \<open>
  Claim C6. A uevent whose device has no device file is dropped by \<^verbatim>\<open>on_uevent\<close>
  before the action is looked at: the callback returns the context as it got it, the
  registry and the trace included, so neither an add nor a remove has run.
\<close>

theorem on_uevent_no_device_file:
  assumes "g_udev_device_get_device_file dev = None"
  shows "on_uevent env action dev ctx = Return ctx"
  using assms by (simp add: on_uevent_def is_gpiochip_device_def)

theorem on_uevent_no_device_file_witness:
  "g_udev_device_get_device_file gpiochip496 = None \<and>
   on_uevent good_env ''add'' gpiochip496 active_ctx = Return active_ctx \<and>
   on_uevent good_env ''remove'' gpiochip496 active_ctx = Return active_ctx"
  using on_uevent_no_device_file [of gpiochip496 good_env "''add''" active_ctx]
    on_uevent_no_device_file [of gpiochip496 good_env "''remove''" active_ctx]
  by (simp add: gpiochip496_def)

section \<open>Tearing down a chip context\<close>

text \<open>
  Claim C8. \<^verbatim>\<open>destroy_chip_object\<close> on a context whose object id is zero makes no
  unregistration, on one whose handle is null makes no close; it returns in both cases,
  having done for the other resource what that resource needs and nothing else.
\<close>

theorem destroy_chip_object_absent:
  "(obj_id chip = 0 \<longrightarrow>
      destroy_chip_object chip tr =
        (if handle chip = NULL then tr else tr @ [Chip_Close (handle chip)])) \<and>
   (handle chip = NULL \<longrightarrow>
      destroy_chip_object chip tr =
        (if obj_id chip = 0 then tr
         else tr @ [Unregister_Object (dbus_conn chip) (obj_id chip)]))"
  by (simp add: destroy_chip_object_def)

theorem destroy_chip_object_absent_witness:
  "destroy_chip_object \<lparr>handle = NULL, obj_id = 0, dbus_conn = 7\<rparr> [] = [] \<and>
   destroy_chip_object \<lparr>handle = 5, obj_id = 0, dbus_conn = 7\<rparr> [] = [Chip_Close 5] \<and>
   destroy_chip_object \<lparr>handle = NULL, obj_id = 3, dbus_conn = 7\<rparr> [] = [Unregister_Object 7 3]"
  using destroy_chip_object_absent [of "\<lparr>handle = NULL, obj_id = 0, dbus_conn = 7\<rparr>" "[]"]
    destroy_chip_object_absent [of "\<lparr>handle = 5, obj_id = 0, dbus_conn = 7\<rparr>" "[]"]
    destroy_chip_object_absent [of "\<lparr>handle = NULL, obj_id = 3, dbus_conn = 7\<rparr>" "[]"]
  by simp

section \<open>Reading a property\<close>

text \<open>
  Claim C7. For \<^verbatim>\<open>Name\<close>, \<^verbatim>\<open>Label\<close> and \<^verbatim>\<open>NumLines\<close> the getter answers with
  what the chip behind the context's handle holds in the chip memory it is called with,
  that is, at the time of the read: a string, a string and an unsigned 32-bit number.
  The context stores no copy of the three values. Any other property name gives no value,
  and the error argument comes back untouched.
\<close>

theorem on_chip_property_get_live:
  "on_chip_property_get gpiod ''Name'' err chip =
     (Some (Variant_String (gpiod_chip_name (gpiod (handle chip)))), err) \<and>
   on_chip_property_get gpiod ''Label'' err chip =
     (Some (Variant_String (gpiod_chip_label (gpiod (handle chip)))), err) \<and>
   on_chip_property_get gpiod ''NumLines'' err chip =
     (Some (Variant_Uint32 (gpiod_chip_num_lines (gpiod (handle chip)))), err) \<and>
   (property \<noteq> ''Name'' \<and> property \<noteq> ''Label'' \<and> property \<noteq> ''NumLines'' \<longrightarrow>
      on_chip_property_get gpiod property err chip = (None, err))"
  by (simp add: on_chip_property_get_def)

text \<open>
  The same registry entry read under two states of the chip memory gives the line count
  of each; a fourth name gives nothing.
\<close>

theorem on_chip_property_get_live_witness:
  "on_chip_property_get gpiod_then ''NumLines'' (None :: string option)
     \<lparr>handle = 1, obj_id = 2, dbus_conn = 7\<rparr> = (Some (Variant_Uint32 32), None) \<and>
   on_chip_property_get gpiod_now ''NumLines'' (None :: string option)
     \<lparr>handle = 1, obj_id = 2, dbus_conn = 7\<rparr> = (Some (Variant_Uint32 54), None) \<and>
   on_chip_property_get gpiod_now ''Name'' (None :: string option)
     \<lparr>handle = 1, obj_id = 2, dbus_conn = 7\<rparr> = (Some (Variant_String ''gpiochip0''), None) \<and>
   on_chip_property_get gpiod_now ''Label'' (None :: string option)
     \<lparr>handle = 1, obj_id = 2, dbus_conn = 7\<rparr> = (Some (Variant_String ''pinctrl''), None) \<and>
   on_chip_property_get gpiod_now ''Lines'' (None :: string option)
     \<lparr>handle = 1, obj_id = 2, dbus_conn = 7\<rparr> = (None, None)"
  using on_chip_property_get_live [of gpiod_then "None :: string option"
      "\<lparr>handle = 1, obj_id = 2, dbus_conn = 7\<rparr>" "''Lines''"]
    on_chip_property_get_live [of gpiod_now "None :: string option"
      "\<lparr>handle = 1, obj_id = 2, dbus_conn = 7\<rparr>" "''Lines''"]
  by (simp add: gpiod_then_def gpiod_now_def)

section \<open>The cases of an add and of a remove\<close>

lemma register_chip_object_open_failed:
  assumes "gpiod_chip_open_by_name env (trace ctx) (g_udev_device_get_name dev) = NULL"
  shows "register_chip_object env dev ctx =
    Return (ctx\<lparr>trace := trace ctx @
      [Chip_Open (g_udev_device_get_name dev) NULL,
       Log_Warning (Error_Opening_Device (g_udev_device_get_name dev))]\<rparr>)"
  using assms by (simp add: register_chip_object_def destroy_chip_object_def Let_def)

lemma register_chip_object_register_failed:
  assumes "gpiod_chip_open_by_name env (trace ctx) (g_udev_device_get_name dev) = h"
    and "h \<noteq> NULL"
    and "g_dbus_connection_register_object env
           (trace ctx @ [Chip_Open (g_udev_device_get_name dev) h]) (bus ctx)
           (''/org/gpiod/'' @ g_udev_device_get_name dev) = 0"
  shows "register_chip_object env dev ctx =
    Return (ctx\<lparr>trace := trace ctx @
      [Chip_Open (g_udev_device_get_name dev) h,
       Register_Object (bus ctx) (''/org/gpiod/'' @ g_udev_device_get_name dev) 0,
       Chip_Close h,
       Log_Warning Error_Registering_Object]\<rparr>)"
  using assms by (simp add: register_chip_object_def destroy_chip_object_def Let_def)

lemma register_chip_object_inserted:
  assumes "gpiod_chip_open_by_name env (trace ctx) (g_udev_device_get_name dev) = h"
    and "h \<noteq> NULL"
    and "g_dbus_connection_register_object env
           (trace ctx @ [Chip_Open (g_udev_device_get_name dev) h]) (bus ctx)
           (''/org/gpiod/'' @ g_udev_device_get_name dev) = oid"
    and "oid \<noteq> 0"
    and "map_of (chips ctx) (g_udev_device_get_name dev) = None"
  shows "register_chip_object env dev ctx =
    Return (ctx\<lparr>chips := chips ctx @
        [(g_udev_device_get_name dev, \<lparr>handle = h, obj_id = oid, dbus_conn = bus ctx\<rparr>)],
      trace := trace ctx @
      [Chip_Open (g_udev_device_get_name dev) h,
       Register_Object (bus ctx) (''/org/gpiod/'' @ g_udev_device_get_name dev) oid,
       Table_Insert (g_udev_device_get_name dev)]\<rparr>)"
  using assms by (simp add: register_chip_object_def g_hash_table_insert_def Let_def)

lemma register_chip_object_duplicate:
  assumes "gpiod_chip_open_by_name env (trace ctx) (g_udev_device_get_name dev) = h"
    and "h \<noteq> NULL"
    and "g_dbus_connection_register_object env
           (trace ctx @ [Chip_Open (g_udev_device_get_name dev) h]) (bus ctx)
           (''/org/gpiod/'' @ g_udev_device_get_name dev) = oid"
    and "oid \<noteq> 0"
    and "map_of (chips ctx) (g_udev_device_get_name dev) = Some old"
  shows "register_chip_object env dev ctx =
    Abort (ctx\<lparr>chips := AList.update (g_udev_device_get_name dev)
        \<lparr>handle = h, obj_id = oid, dbus_conn = bus ctx\<rparr> (chips ctx),
      trace := destroy_chip_object old (trace ctx @
      [Chip_Open (g_udev_device_get_name dev) h,
       Register_Object (bus ctx) (''/org/gpiod/'' @ g_udev_device_get_name dev) oid,
       Table_Insert (g_udev_device_get_name dev)])\<rparr>)"
  using assms by (simp add: register_chip_object_def g_hash_table_insert_def Let_def)

lemma destroy_chip_dev_present:
  assumes "map_of (chips ctx) (g_udev_device_get_name dev) = Some chip"
  shows "destroy_chip_dev dev ctx =
    Return (ctx\<lparr>chips := AList.delete (g_udev_device_get_name dev) (chips ctx),
      trace := destroy_chip_object chip
        (trace ctx @ [Table_Remove (g_udev_device_get_name dev)])\<rparr>)"
  using assms by (simp add: destroy_chip_dev_def g_hash_table_remove_def Let_def)

lemma destroy_chip_dev_absent:
  assumes "map_of (chips ctx) (g_udev_device_get_name dev) = None"
  shows "destroy_chip_dev dev ctx = Abort ctx"
  using assms by (simp add: destroy_chip_dev_def g_hash_table_remove_def Let_def)

text \<open>
  Claim C3. An add of a device name that is not in the registry inserts one entry or
  leaves the registry as it was. When the open fails the call logs a warning and
  returns, the registry unchanged. When the open succeeds and the registration fails the
  call closes the handle, logs a warning and returns, the registry unchanged. When both
  succeed the entry is inserted. The registry differs afterwards if and only if the open
  and the registration both succeeded.
\<close>

theorem add_atomic:
  assumes "map_of (chips ctx) (g_udev_device_get_name dev) = None"
  shows "(let name = g_udev_device_get_name dev;
      h = gpiod_chip_open_by_name env (trace ctx) name;
      path = ''/org/gpiod/'' @ name;
      oid = g_dbus_connection_register_object env (trace ctx @ [Chip_Open name h]) (bus ctx) path
    in register_chip_object env dev ctx =
      (if h = NULL then
         Return (ctx\<lparr>trace := trace ctx @
           [Chip_Open name NULL, Log_Warning (Error_Opening_Device name)]\<rparr>)
       else if oid = 0 then
         Return (ctx\<lparr>trace := trace ctx @
           [Chip_Open name h, Register_Object (bus ctx) path 0, Chip_Close h,
            Log_Warning Error_Registering_Object]\<rparr>)
       else
         Return (ctx\<lparr>chips := chips ctx @
             [(name, \<lparr>handle = h, obj_id = oid, dbus_conn = bus ctx\<rparr>)],
           trace := trace ctx @
           [Chip_Open name h, Register_Object (bus ctx) path oid, Table_Insert name]\<rparr>)) \<and>
      (chips (state_of (register_chip_object env dev ctx)) \<noteq> chips ctx
         \<longleftrightarrow> h \<noteq> NULL \<and> oid \<noteq> 0))"
proof -
  define name where "name = g_udev_device_get_name dev"
  define h where "h = gpiod_chip_open_by_name env (trace ctx) name"
  define path where "path = ''/org/gpiod/'' @ name"
  define oid where
    "oid = g_dbus_connection_register_object env (trace ctx @ [Chip_Open name h]) (bus ctx) path"
  note defs = name_def h_def path_def oid_def
  consider "h = NULL" | "h \<noteq> NULL" "oid = 0" | "h \<noteq> NULL" "oid \<noteq> 0" by blast
  then show ?thesis
  proof cases
    case 1
    then show ?thesis
      using register_chip_object_open_failed [of env ctx dev]
      by (simp add: defs Let_def)
  next
    case 2
    then show ?thesis
      using register_chip_object_register_failed [of env ctx dev h]
      by (simp add: defs Let_def)
  next
    case 3
    then show ?thesis
      using register_chip_object_inserted [of env ctx dev h oid] assms
      by (simp add: defs Let_def)
  qed
qed

text \<open>
  Claim C4, amended to where the code tests for the name. The insertion into the hash
  table is the last step of \<^verbatim>\<open>register_chip_object\<close>, reached once the open and
  the registration have succeeded, and the assertion behind it is the only test for a
  name already present: an add fails the assertion exactly when the open succeeds, the
  registration succeeds and the name is in the table. The assertion of
  \<^verbatim>\<open>destroy_chip_dev\<close> fails exactly when the removal does not find the name. A
  failed assertion ends the process; in every other case the function returns to its
  caller.
\<close>

theorem assertion_fires:
  "(aborted (register_chip_object env dev ctx) \<longleftrightarrow>
      (let name = g_udev_device_get_name dev;
           h = gpiod_chip_open_by_name env (trace ctx) name
       in h \<noteq> NULL \<and>
          g_dbus_connection_register_object env (trace ctx @ [Chip_Open name h]) (bus ctx)
            (''/org/gpiod/'' @ name) \<noteq> 0 \<and>
          map_of (chips ctx) name \<noteq> None)) \<and>
   (aborted (destroy_chip_dev dev ctx) \<longleftrightarrow>
      map_of (chips ctx) (g_udev_device_get_name dev) = None) \<and>
   (aborted (register_chip_object env dev ctx) \<or>
      (\<exists>ctx'. register_chip_object env dev ctx = Return ctx')) \<and>
   (aborted (destroy_chip_dev dev ctx) \<or>
      (\<exists>ctx'. destroy_chip_dev dev ctx = Return ctx'))"
proof -
  define name where "name = g_udev_device_get_name dev"
  define h where "h = gpiod_chip_open_by_name env (trace ctx) name"
  define oid where
    "oid = g_dbus_connection_register_object env (trace ctx @ [Chip_Open name h]) (bus ctx)
             (''/org/gpiod/'' @ name)"
  note defs = name_def h_def oid_def
  have reg: "aborted (register_chip_object env dev ctx) \<longleftrightarrow>
      h \<noteq> NULL \<and> oid \<noteq> 0 \<and> map_of (chips ctx) name \<noteq> None"
    and reg': "aborted (register_chip_object env dev ctx) \<or>
      (\<exists>ctx'. register_chip_object env dev ctx = Return ctx')"
  proof -
    consider "h = NULL" | "h \<noteq> NULL" "oid = 0"
      | "h \<noteq> NULL" "oid \<noteq> 0" "map_of (chips ctx) name = None"
      | old where "h \<noteq> NULL" "oid \<noteq> 0" "map_of (chips ctx) name = Some old"
      by (cases "map_of (chips ctx) name") blast+
    then have "(aborted (register_chip_object env dev ctx) \<longleftrightarrow>
      h \<noteq> NULL \<and> oid \<noteq> 0 \<and> map_of (chips ctx) name \<noteq> None) \<and>
      (aborted (register_chip_object env dev ctx) \<or>
      (\<exists>ctx'. register_chip_object env dev ctx = Return ctx'))"
    proof cases
      case 1
      then show ?thesis
        using register_chip_object_open_failed [of env ctx dev] by (simp add: defs)
    next
      case 2
      then show ?thesis
        using register_chip_object_register_failed [of env ctx dev h] by (simp add: defs)
    next
      case 3
      then show ?thesis
        using register_chip_object_inserted [of env ctx dev h oid] by (simp add: defs)
    next
      case 4
      then show ?thesis
        using register_chip_object_duplicate [of env ctx dev h oid old] by (simp add: defs)
    qed
    then show "aborted (register_chip_object env dev ctx) \<longleftrightarrow>
      h \<noteq> NULL \<and> oid \<noteq> 0 \<and> map_of (chips ctx) name \<noteq> None"
      and "aborted (register_chip_object env dev ctx) \<or>
      (\<exists>ctx'. register_chip_object env dev ctx = Return ctx')" by blast+
  qed
  have rem: "(aborted (destroy_chip_dev dev ctx) \<longleftrightarrow> map_of (chips ctx) name = None) \<and>
    (aborted (destroy_chip_dev dev ctx) \<or> (\<exists>ctx'. destroy_chip_dev dev ctx = Return ctx'))"
  proof (cases "map_of (chips ctx) name")
    case None
    then show ?thesis using destroy_chip_dev_absent [of ctx dev] by (simp add: defs)
  next
    case (Some chip)
    then show ?thesis using destroy_chip_dev_present [of ctx dev chip] by (simp add: defs)
  qed
  show ?thesis unfolding Let_def using reg reg' rem unfolding defs by blast
qed

section \<open>The effects of an enumeration\<close>

lemma add_effect_mono:
  "add_effect S e \<Longrightarrow> S \<subseteq> T \<Longrightarrow> add_effect T e"
  by (cases e) auto

lemma list_all_add_effect_mono:
  "list_all (add_effect S) es \<Longrightarrow> S \<subseteq> T \<Longrightarrow> list_all (add_effect T) es"
  by (induction es) (auto intro: add_effect_mono)

lemma destroy_chip_object_effects:
  "\<exists>ext. destroy_chip_object chip tr = tr @ ext \<and> list_all (add_effect S) ext"
  by (simp add: destroy_chip_object_def Let_def)

lemma register_chip_object_effects:
  "\<exists>ext. trace (state_of (register_chip_object env dev ctx)) = trace ctx @ ext \<and>
     list_all (add_effect {g_udev_device_get_name dev}) ext"
proof -
  define name where "name = g_udev_device_get_name dev"
  define h where "h = gpiod_chip_open_by_name env (trace ctx) name"
  define oid where
    "oid = g_dbus_connection_register_object env (trace ctx @ [Chip_Open name h]) (bus ctx)
             (''/org/gpiod/'' @ name)"
  note defs = name_def h_def oid_def
  consider "h = NULL" | "h \<noteq> NULL" "oid = 0"
    | "h \<noteq> NULL" "oid \<noteq> 0" "map_of (chips ctx) name = None"
    | old where "h \<noteq> NULL" "oid \<noteq> 0" "map_of (chips ctx) name = Some old"
    by (cases "map_of (chips ctx) name") blast+
  then show ?thesis
  proof cases
    case 1
    then show ?thesis
      using register_chip_object_open_failed [of env ctx dev] by (simp add: defs)
  next
    case 2
    then show ?thesis
      using register_chip_object_register_failed [of env ctx dev h] by (simp add: defs)
  next
    case 3
    then show ?thesis
      using register_chip_object_inserted [of env ctx dev h oid] by (simp add: defs)
  next
    case 4
    obtain ext where ext: "destroy_chip_object old (trace ctx @
      [Chip_Open name h, Register_Object (bus ctx) (''/org/gpiod/'' @ name) oid,
       Table_Insert name]) = (trace ctx @
      [Chip_Open name h, Register_Object (bus ctx) (''/org/gpiod/'' @ name) oid,
       Table_Insert name]) @ ext" "list_all (add_effect {name}) ext"
      using destroy_chip_object_effects by blast
    have "register_chip_object env dev ctx =
      Abort (ctx\<lparr>chips := AList.update name \<lparr>handle = h, obj_id = oid, dbus_conn = bus ctx\<rparr> (chips ctx),
        trace := (trace ctx @
      [Chip_Open name h, Register_Object (bus ctx) (''/org/gpiod/'' @ name) oid,
       Table_Insert name]) @ ext\<rparr>)"
      using 4 register_chip_object_duplicate [of env ctx dev h oid old] ext(1)
      by (simp add: defs)
    then show ?thesis using ext(2) by (simp add: defs)
  qed
qed

lemma register_chip_object_frame:
  "loop (state_of (register_chip_object env dev ctx)) = loop ctx \<and>
   udev (state_of (register_chip_object env dev ctx)) = udev ctx \<and>
   bus (state_of (register_chip_object env dev ctx)) = bus ctx"
  by (simp add: register_chip_object_def Let_def split: prod.splits)

lemma register_chip_object_not_exit:
  "register_chip_object env dev ctx \<noteq> Exit n c \<and> register_chip_object env dev ctx \<noteq> Running c"
  by (simp add: register_chip_object_def Let_def split: prod.splits)

lemma destroy_chip_dev_frame:
  "loop (state_of (destroy_chip_dev dev ctx)) = loop ctx \<and>
   udev (state_of (destroy_chip_dev dev ctx)) = udev ctx \<and>
   bus (state_of (destroy_chip_dev dev ctx)) = bus ctx"
  by (simp add: destroy_chip_dev_def Let_def split: prod.splits)

lemma destroy_chip_dev_not_exit:
  "destroy_chip_dev dev ctx \<noteq> Exit n c \<and> destroy_chip_dev dev ctx \<noteq> Running c"
  by (simp add: destroy_chip_dev_def Let_def split: prod.splits)

lemma create_chip_list_cb_skip:
  "\<not> is_gpiochip_device dev \<Longrightarrow> create_chip_list_cb env dev ctx = Return ctx"
  by (simp add: create_chip_list_cb_def)

lemma g_list_foreach_filter:
  "g_list_foreach env devs ctx = g_list_foreach env (filter is_gpiochip_device devs) ctx"
proof (induction devs arbitrary: ctx)
  case Nil
  show ?case by simp
next
  case (Cons dev devs)
  show ?case
  proof (cases "is_gpiochip_device dev")
    case True
    then show ?thesis
      using Cons.IH by (simp split: outcome.splits)
  next
    case False
    then show ?thesis
      using Cons.IH [of ctx] by (simp add: create_chip_list_cb_skip)
  qed
qed


lemma g_list_foreach_effects:
  "\<exists>ext. trace (state_of (g_list_foreach env devs ctx)) = trace ctx @ ext \<and>
     list_all (add_effect (chip_names devs)) ext"
proof (induction devs arbitrary: ctx)
  case Nil
  then show ?case by simp
next
  case (Cons dev devs)
  show ?case
  proof (cases "is_gpiochip_device dev")
    case False
    obtain ext where "trace (state_of (g_list_foreach env devs ctx)) = trace ctx @ ext"
      "list_all (add_effect (chip_names devs)) ext"
      using Cons.IH by blast
    moreover have "chip_names devs \<subseteq> chip_names (dev # devs)"
      by (auto simp: chip_names_def)
    ultimately show ?thesis
      using False list_all_add_effect_mono
      by (auto simp add: create_chip_list_cb_def)
  next
    case True
    obtain e1 where e1: "trace (state_of (register_chip_object env dev ctx)) = trace ctx @ e1"
      "list_all (add_effect {g_udev_device_get_name dev}) e1"
      using register_chip_object_effects by blast
    have sub1: "{g_udev_device_get_name dev} \<subseteq> chip_names (dev # devs)"
      using True by (auto simp: chip_names_def)
    have sub2: "chip_names devs \<subseteq> chip_names (dev # devs)"
      by (auto simp: chip_names_def)
    show ?thesis
    proof (cases "register_chip_object env dev ctx")
      case (Return ctx')
      obtain e2 where e2: "trace (state_of (g_list_foreach env devs ctx')) = trace ctx' @ e2"
        "list_all (add_effect (chip_names devs)) e2"
        using Cons.IH by blast
      have "trace (state_of (g_list_foreach env (dev # devs) ctx)) = trace ctx @ (e1 @ e2)"
        using True Return e1(1) e2(1) by (simp add: create_chip_list_cb_def)
      moreover have "list_all (add_effect (chip_names (dev # devs))) (e1 @ e2)"
        using e1(2) e2(2) sub1 sub2 list_all_add_effect_mono by auto
      ultimately show ?thesis by blast
    next
      case (Exit n c)
      then show ?thesis using register_chip_object_not_exit by blast
    next
      case (Abort c)
      then have "trace (state_of (g_list_foreach env (dev # devs) ctx)) = trace ctx @ e1"
        using True e1(1) by (simp add: create_chip_list_cb_def)
      then show ?thesis using e1(2) sub1 list_all_add_effect_mono by blast
    next
      case (Running c)
      then show ?thesis using register_chip_object_not_exit by blast
    qed
  qed
qed

lemma g_list_foreach_frame:
  "loop (state_of (g_list_foreach env devs ctx)) = loop ctx \<and>
   udev (state_of (g_list_foreach env devs ctx)) = udev ctx \<and>
   bus (state_of (g_list_foreach env devs ctx)) = bus ctx"
proof (induction devs arbitrary: ctx)
  case Nil
  then show ?case by simp
next
  case (Cons dev devs)
  show ?case
  proof (cases "is_gpiochip_device dev")
    case False
    then show ?thesis using Cons.IH by (simp add: create_chip_list_cb_def)
  next
    case True
    show ?thesis
      using True Cons.IH register_chip_object_frame [of env dev ctx]
      by (cases "register_chip_object env dev ctx") (auto simp: create_chip_list_cb_def)
  qed
qed

lemma g_list_foreach_not_exit:
  "g_list_foreach env devs ctx \<noteq> Exit n c \<and> g_list_foreach env devs ctx \<noteq> Running c"
proof (induction devs arbitrary: ctx)
  case Nil
  then show ?case by simp
next
  case (Cons dev devs)
  show ?case
    using Cons.IH register_chip_object_not_exit [of env dev ctx]
    by (cases "register_chip_object env dev ctx") (auto simp: create_chip_list_cb_def)
qed

text \<open>
  Claim C10. The callback of the start-up enumeration tests a device with the same
  \<^verbatim>\<open>is_gpiochip_device\<close> as the uevent handler does, and it is the uevent handler
  for the action \<^verbatim>\<open>add\<close>. A device without a device file is skipped, the
  enumeration does what it does on the snapshot with those devices taken out, and every
  open attempted while the bus name is being acquired is for a device of the snapshot
  that has a device file.
\<close>

theorem enumeration_filter:
  "(g_udev_device_get_device_file dev = None \<longrightarrow> create_chip_list_cb env dev ctx = Return ctx) \<and>
   create_chip_list_cb env dev ctx = on_uevent env ''add'' dev ctx \<and>
   on_name_acquired env devs ctx = on_name_acquired env (filter is_gpiochip_device devs) ctx \<and>
   (\<forall>name h. Chip_Open name h \<in> set (drop (length (trace ctx))
        (trace (state_of (on_name_acquired env devs ctx)))) \<longrightarrow>
      (\<exists>d. d \<in> set devs \<and> g_udev_device_get_name d = name \<and>
           g_udev_device_get_device_file d \<noteq> None))"
proof -
  have a: "g_udev_device_get_device_file dev = None \<longrightarrow> create_chip_list_cb env dev ctx = Return ctx"
    by (simp add: create_chip_list_cb_def is_gpiochip_device_def)
  have b: "create_chip_list_cb env dev ctx = on_uevent env ''add'' dev ctx"
    by (simp add: create_chip_list_cb_def on_uevent_def)
  have c: "on_name_acquired env devs ctx = on_name_acquired env (filter is_gpiochip_device devs) ctx"
    unfolding on_name_acquired_def Let_def by (rule g_list_foreach_filter)
  have d: "\<exists>d. d \<in> set devs \<and> g_udev_device_get_name d = name \<and>
           g_udev_device_get_device_file d \<noteq> None"
    if "Chip_Open name h \<in> set (drop (length (trace ctx))
        (trace (state_of (on_name_acquired env devs ctx))))" for name h
  proof -
    define ctx1 where "ctx1 = ctx\<lparr>udev := True,
      trace := trace ctx @ [Signal_Connect_Uevent, Query_By_Subsystem ''gpio'']\<rparr>"
    have eq: "on_name_acquired env devs ctx = g_list_foreach env devs ctx1"
      by (simp add: on_name_acquired_def ctx1_def)
    obtain ext where ext: "trace (state_of (g_list_foreach env devs ctx1)) = trace ctx1 @ ext"
      "list_all (add_effect (chip_names devs)) ext"
      using g_list_foreach_effects by blast
    have "Chip_Open name h \<in> set ([Signal_Connect_Uevent, Query_By_Subsystem ''gpio''] @ ext)"
      using that eq ext(1) by (simp add: ctx1_def)
    then have "Chip_Open name h \<in> set ext" by simp
    then have "add_effect (chip_names devs) (Chip_Open name h)"
      using ext(2) unfolding list_all_iff by blast
    then show ?thesis
      by (auto simp: chip_names_def is_gpiochip_device_def)
  qed
  show ?thesis using a b c d by blast
qed

lemma register_chip_object_opens:
  "\<exists>h ext. trace (state_of (register_chip_object env dev ctx)) =
     trace ctx @ Chip_Open (g_udev_device_get_name dev) h # ext"
proof -
  define name where "name = g_udev_device_get_name dev"
  define h where "h = gpiod_chip_open_by_name env (trace ctx) name"
  define oid where
    "oid = g_dbus_connection_register_object env (trace ctx @ [Chip_Open name h]) (bus ctx)
             (''/org/gpiod/'' @ name)"
  note defs = name_def h_def oid_def
  consider "h = NULL" | "h \<noteq> NULL" "oid = 0"
    | "h \<noteq> NULL" "oid \<noteq> 0" "map_of (chips ctx) name = None"
    | old where "h \<noteq> NULL" "oid \<noteq> 0" "map_of (chips ctx) name = Some old"
    by (cases "map_of (chips ctx) name") blast+
  then show ?thesis
  proof cases
    case 1
    then show ?thesis
      using register_chip_object_open_failed [of env ctx dev] by (simp add: defs)
  next
    case 2
    then show ?thesis
      using register_chip_object_register_failed [of env ctx dev h] by (simp add: defs)
  next
    case 3
    then show ?thesis
      using register_chip_object_inserted [of env ctx dev h oid] by (simp add: defs)
  next
    case 4
    obtain ext where ext: "destroy_chip_object old (trace ctx @
      [Chip_Open name h, Register_Object (bus ctx) (''/org/gpiod/'' @ name) oid,
       Table_Insert name]) = (trace ctx @
      [Chip_Open name h, Register_Object (bus ctx) (''/org/gpiod/'' @ name) oid,
       Table_Insert name]) @ ext"
      using destroy_chip_object_effects by blast
    show ?thesis
      using 4 register_chip_object_duplicate [of env ctx dev h oid old] ext
      by (simp add: defs)
  qed
qed

lemma g_list_foreach_attempts:
  assumes "g_list_foreach env devs ctx = Return c"
    and "d \<in> set devs" and "is_gpiochip_device d"
  shows "\<exists>h. Chip_Open (g_udev_device_get_name d) h \<in> set (drop (length (trace ctx)) (trace c))"
  using assms
proof (induction devs arbitrary: ctx)
  case Nil
  then show ?case by simp
next
  case (Cons dev devs)
  obtain ctx' where step: "create_chip_list_cb env dev ctx = Return ctx'"
    and rest: "g_list_foreach env devs ctx' = Return c"
    using Cons.prems(1) by (cases "create_chip_list_cb env dev ctx") auto
  obtain e1 where e1: "trace ctx' = trace ctx @ e1"
    using step register_chip_object_effects [of env dev ctx]
    by (auto simp: create_chip_list_cb_def split: if_splits)
  obtain e2 where e2: "trace c = trace ctx' @ e2"
    using rest g_list_foreach_effects [of env devs ctx'] by auto
  have tr: "drop (length (trace ctx)) (trace c) = e1 @ e2"
    using e1 e2 by simp
  show ?case
  proof (cases "d = dev")
    case True
    then have "register_chip_object env dev ctx = Return ctx'"
      using step Cons.prems(3) by (simp add: create_chip_list_cb_def)
    then obtain h ext where "trace ctx' = trace ctx @ Chip_Open (g_udev_device_get_name dev) h # ext"
      using register_chip_object_opens [of env dev ctx] by auto
    then have "Chip_Open (g_udev_device_get_name dev) h \<in> set e1"
      using e1 by simp
    then show ?thesis using True tr by auto
  next
    case False
    then have "d \<in> set devs" using Cons.prems(2) by simp
    then obtain h where "Chip_Open (g_udev_device_get_name d) h
        \<in> set (drop (length (trace ctx')) (trace c))"
      using Cons.IH [OF rest _ Cons.prems(3)] by blast
    then have "Chip_Open (g_udev_device_get_name d) h \<in> set e2"
      using e2 by simp
    then show ?thesis using tr by auto
  qed
qed

text \<open>
  Claim C2, amended to the order of the code. When the bus name is granted the handler
  first connects \<^verbatim>\<open>on_uevent\<close> to the udev client, then queries the devices that
  are present, then adds each of them that has a device file: what the callback appends
  to the trace starts with the subscription, then the query, and all that follows are
  effects of adds of qualifying devices. The handler is connected when it returns, and
  unless an assertion ended the process every qualifying device of the snapshot had its
  open attempted.
\<close>

theorem subscribe_then_enumerate:
  "\<exists>rest. trace (state_of (on_name_acquired env devs ctx)) =
      trace ctx @ [Signal_Connect_Uevent, Query_By_Subsystem ''gpio''] @ rest \<and>
     list_all (add_effect (g_udev_device_get_name ` {d \<in> set devs. is_gpiochip_device d})) rest \<and>
     udev (state_of (on_name_acquired env devs ctx)) \<and>
     (\<not> aborted (on_name_acquired env devs ctx) \<longrightarrow>
        (\<forall>d. d \<in> set devs \<and> is_gpiochip_device d \<longrightarrow>
           (\<exists>h. Chip_Open (g_udev_device_get_name d) h \<in> set rest)))"
proof -
  define ctx1 where "ctx1 = ctx\<lparr>udev := True,
    trace := trace ctx @ [Signal_Connect_Uevent, Query_By_Subsystem ''gpio'']\<rparr>"
  have eq: "on_name_acquired env devs ctx = g_list_foreach env devs ctx1"
    by (simp add: on_name_acquired_def ctx1_def)
  obtain ext where ext: "trace (state_of (g_list_foreach env devs ctx1)) = trace ctx1 @ ext"
    "list_all (add_effect (chip_names devs)) ext"
    using g_list_foreach_effects by blast
  have u: "udev (state_of (g_list_foreach env devs ctx1))"
    using g_list_foreach_frame [of env devs ctx1] by (simp add: ctx1_def)
  have att: "\<exists>h. Chip_Open (g_udev_device_get_name d) h \<in> set ext"
    if na: "\<not> aborted (g_list_foreach env devs ctx1)"
      and d: "d \<in> set devs" "is_gpiochip_device d" for d
  proof -
    obtain c where c: "g_list_foreach env devs ctx1 = Return c"
      using na g_list_foreach_not_exit [of env devs ctx1]
      by (cases "g_list_foreach env devs ctx1") auto
    have "drop (length (trace ctx1)) (trace c) = ext"
      using ext(1) c by simp
    then show ?thesis using g_list_foreach_attempts [OF c d] by simp
  qed
  have "trace (state_of (on_name_acquired env devs ctx)) =
      trace ctx @ [Signal_Connect_Uevent, Query_By_Subsystem ''gpio''] @ ext"
    using eq ext(1) by (simp add: ctx1_def)
  moreover have "list_all (add_effect (g_udev_device_get_name ` {d \<in> set devs. is_gpiochip_device d})) ext"
    using ext(2) by (simp add: chip_names_def)
  moreover have "udev (state_of (on_name_acquired env devs ctx))"
    using u eq by simp
  moreover have "\<not> aborted (on_name_acquired env devs ctx) \<longrightarrow>
        (\<forall>d. d \<in> set devs \<and> is_gpiochip_device d \<longrightarrow>
           (\<exists>h. Chip_Open (g_udev_device_get_name d) h \<in> set ext))"
    using att eq by auto
  ultimately show ?thesis by blast
qed

section \<open>Open handles and registered objects\<close>

lemma open_handles_snoc: "open_handles (tr @ [e]) = open_step (open_handles tr) e"
  by (simp add: open_handles_def)

lemma registered_objects_snoc:
  "registered_objects (tr @ [e]) = registered_step (registered_objects tr) e"
  by (simp add: registered_objects_def)

lemma null_not_open: "NULL \<notin> open_handles tr"
proof (induction tr rule: rev_induct)
  case Nil
  show ?case by (simp add: open_handles_def)
next
  case (snoc e tr)
  then show ?case by (cases e) (simp_all add: open_handles_snoc)
qed

lemma zero_not_registered: "(conn, 0) \<notin> registered_objects tr"
proof (induction tr rule: rev_induct)
  case Nil
  show ?case by (simp add: registered_objects_def)
next
  case (snoc e tr)
  then show ?case by (cases e) (simp_all add: registered_objects_snoc)
qed

lemma open_handles_destroy:
  "open_handles (destroy_chip_object chip tr) = open_handles tr - {handle chip}"
  using null_not_open [of tr]
  by (simp add: destroy_chip_object_def Let_def open_handles_snoc)

lemma registered_objects_destroy:
  "registered_objects (destroy_chip_object chip tr) = registered_objects tr - {object_of chip}"
  using zero_not_registered [of "dbus_conn chip" tr]
  by (simp add: destroy_chip_object_def Let_def registered_objects_snoc object_of_def)

lemma map_of_split:
  assumes "distinct (map fst al)" and "map_of al k = Some v"
  shows "\<exists>xs ys. al = xs @ (k, v) # ys \<and> k \<notin> fst ` set xs \<and> k \<notin> fst ` set ys"
proof -
  have "(k, v) \<in> set al" using assms(2) by (rule map_of_SomeD)
  then obtain xs ys where al: "al = xs @ (k, v) # ys" by (auto simp: in_set_conv_decomp)
  then show ?thesis using assms(1) by auto
qed

lemma update_split:
  "k \<notin> fst ` set xs \<Longrightarrow> AList.update k v' (xs @ (k, v) # ys) = xs @ (k, v') # ys"
  by (induction xs) auto

lemma delete_split:
  "k \<notin> fst ` set xs \<Longrightarrow> k \<notin> fst ` set ys \<Longrightarrow> AList.delete k (xs @ (k, v) # ys) = xs @ ys"
  by (induction xs) auto

lemma fresh_good_env: "fresh_environment good_env"
  using null_not_open zero_not_registered
  by (simp add: fresh_environment_def good_env_def Let_def)

lemma open_handles_append: "open_handles (tr @ es) = foldl open_step (open_handles tr) es"
  by (simp add: open_handles_def)

lemma registered_objects_append:
  "registered_objects (tr @ es) = foldl registered_step (registered_objects tr) es"
  by (simp add: registered_objects_def)

lemma registry_valid_update:
  "registry_valid al \<Longrightarrow> entry_valid v \<Longrightarrow> registry_valid (AList.update k v al)"
  by (induction al) (auto simp: registry_valid_def)

lemma registry_valid_delete:
  "registry_valid al \<Longrightarrow> registry_valid (AList.delete k al)"
  by (induction al) (auto simp: registry_valid_def)

lemma registry_valid_register:
  assumes "registry_valid (chips ctx)"
  shows "registry_valid (chips (state_of (register_chip_object env dev ctx)))"
proof -
  define name where "name = g_udev_device_get_name dev"
  define h where "h = gpiod_chip_open_by_name env (trace ctx) name"
  define oid where
    "oid = g_dbus_connection_register_object env (trace ctx @ [Chip_Open name h]) (bus ctx)
             (''/org/gpiod/'' @ name)"
  note defs = name_def h_def oid_def
  consider "h = NULL" | "h \<noteq> NULL" "oid = 0"
    | "h \<noteq> NULL" "oid \<noteq> 0" "map_of (chips ctx) name = None"
    | old where "h \<noteq> NULL" "oid \<noteq> 0" "map_of (chips ctx) name = Some old"
    by (cases "map_of (chips ctx) name") blast+
  then show ?thesis
  proof cases
    case 1
    then show ?thesis
      using assms register_chip_object_open_failed [of env ctx dev] by (simp add: defs)
  next
    case 2
    then show ?thesis
      using assms register_chip_object_register_failed [of env ctx dev h] by (simp add: defs)
  next
    case 3
    then show ?thesis
      using assms register_chip_object_inserted [of env ctx dev h oid]
      by (simp add: defs registry_valid_def entry_valid_def)
  next
    case 4
    have "entry_valid \<lparr>handle = h, obj_id = oid, dbus_conn = bus ctx\<rparr>"
      using 4 by (simp add: entry_valid_def)
    then show ?thesis
      using 4 assms register_chip_object_duplicate [of env ctx dev h oid old]
      by (simp add: defs registry_valid_update)
  qed
qed

lemma registry_valid_destroy_dev:
  assumes "registry_valid (chips ctx)"
  shows "registry_valid (chips (state_of (destroy_chip_dev dev ctx)))"
proof (cases "map_of (chips ctx) (g_udev_device_get_name dev)")
  case None
  then show ?thesis using assms destroy_chip_dev_absent [of ctx dev] by simp
next
  case (Some chip)
  then show ?thesis
    using assms destroy_chip_dev_present [of ctx dev chip] by (simp add: registry_valid_delete)
qed

lemma consistent_trace_irrelevant:
  assumes "consistent ctx"
    and "open_handles tr = open_handles (trace ctx)"
    and "registered_objects tr = registered_objects (trace ctx)"
  shows "consistent (ctx\<lparr>trace := tr\<rparr>)"
  using assms by (simp add: consistent_def)

lemma consistent_register:
  assumes fresh: "fresh_environment env" and cons: "consistent ctx"
  shows "consistent (state_of (register_chip_object env dev ctx))"
proof -
  define name where "name = g_udev_device_get_name dev"
  define h where "h = gpiod_chip_open_by_name env (trace ctx) name"
  define path where "path = ''/org/gpiod/'' @ name"
  define oid where
    "oid = g_dbus_connection_register_object env (trace ctx @ [Chip_Open name h]) (bus ctx) path"
  note defs = name_def h_def oid_def path_def
  have h_fresh: "h \<notin> open_handles (trace ctx)"
    using fresh by (simp add: fresh_environment_def h_def)
  have "(bus ctx, oid) \<notin> registered_objects (trace ctx @ [Chip_Open name h])"
    using fresh unfolding fresh_environment_def oid_def by blast
  then have oid_fresh: "(bus ctx, oid) \<notin> registered_objects (trace ctx)"
    by (simp add: registered_objects_append)
  consider "h = NULL" | "h \<noteq> NULL" "oid = 0"
    | "h \<noteq> NULL" "oid \<noteq> 0" "map_of (chips ctx) name = None"
    | old where "h \<noteq> NULL" "oid \<noteq> 0" "map_of (chips ctx) name = Some old"
    by (cases "map_of (chips ctx) name") blast+
  then show ?thesis
  proof cases
    case 1
    have "register_chip_object env dev ctx = Return (ctx\<lparr>trace := trace ctx @
      [Chip_Open name NULL, Log_Warning (Error_Opening_Device name)]\<rparr>)"
      using 1 register_chip_object_open_failed [of env ctx dev] by (simp add: defs)
    then show ?thesis
      using cons by (simp add: consistent_trace_irrelevant open_handles_append
          registered_objects_append)
  next
    case 2
    have "register_chip_object env dev ctx = Return (ctx\<lparr>trace := trace ctx @
      [Chip_Open name h, Register_Object (bus ctx) path 0, Chip_Close h,
       Log_Warning Error_Registering_Object]\<rparr>)"
      using 2 register_chip_object_register_failed [of env ctx dev h] by (simp add: defs)
    then show ?thesis
      using cons 2 h_fresh by (simp add: consistent_trace_irrelevant open_handles_append
          registered_objects_append)
  next
    case 3
    have eq: "register_chip_object env dev ctx = Return (ctx\<lparr>chips := chips ctx @
        [(name, \<lparr>handle = h, obj_id = oid, dbus_conn = bus ctx\<rparr>)],
      trace := trace ctx @
      [Chip_Open name h, Register_Object (bus ctx) path oid, Table_Insert name]\<rparr>)"
      using 3 register_chip_object_inserted [of env ctx dev h oid] by (simp add: defs)
    have key: "name \<notin> fst ` set (chips ctx)"
      using 3(3) by (simp add: map_of_eq_None_iff)
    show ?thesis
      using cons 3 h_fresh oid_fresh key unfolding eq
      by (simp add: consistent_def open_handles_append registered_objects_append
          registry_valid_def entry_valid_def object_of_def)
  next
    case 4
    have eq: "register_chip_object env dev ctx =
      Abort (ctx\<lparr>chips := AList.update name
          \<lparr>handle = h, obj_id = oid, dbus_conn = bus ctx\<rparr> (chips ctx),
        trace := destroy_chip_object old (trace ctx @
        [Chip_Open name h, Register_Object (bus ctx) path oid, Table_Insert name])\<rparr>)"
      using 4 register_chip_object_duplicate [of env ctx dev h oid old] by (simp add: defs)
    obtain xs ys where split: "chips ctx = xs @ (name, old) # ys"
      "name \<notin> fst ` set xs" "name \<notin> fst ` set ys"
      using map_of_split [of "chips ctx" name old] cons 4(3) unfolding consistent_def by blast
    have upd: "AList.update name \<lparr>handle = h, obj_id = oid, dbus_conn = bus ctx\<rparr> (chips ctx)
      = xs @ (name, \<lparr>handle = h, obj_id = oid, dbus_conn = bus ctx\<rparr>) # ys"
      using split by (simp add: update_split)
    show ?thesis
      using cons 4 h_fresh oid_fresh split unfolding eq upd
      by (auto simp add: consistent_def open_handles_append registered_objects_append
          open_handles_destroy registered_objects_destroy
          registry_valid_def entry_valid_def object_of_def)
  qed
qed

lemma consistent_destroy_dev:
  assumes cons: "consistent ctx"
  shows "consistent (state_of (destroy_chip_dev dev ctx))"
proof (cases "map_of (chips ctx) (g_udev_device_get_name dev)")
  case None
  then show ?thesis using assms destroy_chip_dev_absent [of ctx dev] by simp
next
  case (Some chip)
  define name where "name = g_udev_device_get_name dev"
  have eq: "destroy_chip_dev dev ctx =
    Return (ctx\<lparr>chips := AList.delete name (chips ctx),
      trace := destroy_chip_object chip (trace ctx @ [Table_Remove name])\<rparr>)"
    using Some destroy_chip_dev_present [of ctx dev chip] by (simp add: name_def)
  obtain xs ys where split: "chips ctx = xs @ (name, chip) # ys"
    "name \<notin> fst ` set xs" "name \<notin> fst ` set ys"
    using map_of_split [of "chips ctx" name chip] cons Some unfolding consistent_def name_def
    by blast
  have del: "AList.delete name (chips ctx) = xs @ ys"
    using split by (simp add: delete_split)
  show ?thesis
    using cons split unfolding eq del
    by (auto simp add: consistent_def open_handles_append registered_objects_append
        open_handles_destroy registered_objects_destroy
        registry_valid_def entry_valid_def object_of_def)
qed

lemma open_handles_destroy_all:
  "open_handles (g_hash_table_destroy table tr) =
     open_handles tr - set (map (\<lambda>(key, chip). handle chip) table)"
  by (induction table tr rule: g_hash_table_destroy.induct)
    (auto simp: open_handles_destroy open_handles_append)

lemma registered_objects_destroy_all:
  "registered_objects (g_hash_table_destroy table tr) =
     registered_objects tr - set (map (\<lambda>(key, chip). object_of chip) table)"
  by (induction table tr rule: g_hash_table_destroy.induct)
    (auto simp: registered_objects_destroy registered_objects_append)

lemma consistent_destroy_all:
  assumes "consistent ctx"
  shows "consistent (ctx\<lparr>chips := [], trace := g_hash_table_destroy (chips ctx) (trace ctx)\<rparr>)"
  using assms
  by (simp add: consistent_def open_handles_destroy_all registered_objects_destroy_all
      registry_valid_def)

lemma consistent_frame:
  "consistent (ctx\<lparr>loop := b\<rparr>) = consistent ctx"
  "consistent (ctx\<lparr>udev := b\<rparr>) = consistent ctx"
  "consistent (ctx\<lparr>bus := c\<rparr>) = consistent ctx"
  by (simp_all add: consistent_def)

lemma consistent_g_list_foreach:
  assumes "fresh_environment env" and "consistent ctx"
  shows "consistent (state_of (g_list_foreach env devs ctx))"
  using assms(2)
proof (induction devs arbitrary: ctx)
  case Nil
  then show ?case by simp
next
  case (Cons dev devs)
  show ?case
  proof (cases "is_gpiochip_device dev")
    case False
    then show ?thesis using Cons by (simp add: create_chip_list_cb_def)
  next
    case True
    have "consistent (state_of (register_chip_object env dev ctx))"
      using assms(1) Cons.prems by (rule consistent_register)
    then show ?thesis
      using True Cons.IH
      by (cases "register_chip_object env dev ctx") (simp_all add: create_chip_list_cb_def)
  qed
qed

lemma consistent_dispatch:
  assumes "fresh_environment env" and "consistent ctx"
  shows "consistent (state_of (dispatch env e ctx))"
proof (cases e)
  case SIGTERM
  then show ?thesis
    using assms(2) by (simp add: on_sigterm_def consistent_def open_handles_append
        registered_objects_append)
next
  case SIGINT
  then show ?thesis
    using assms(2) by (simp add: on_sigint_def consistent_def open_handles_append
        registered_objects_append)
next
  case SIGHUP
  then show ?thesis using assms(2) by (simp add: on_sighup_def)
next
  case (Bus_Acquired conn)
  then show ?thesis using assms(2) by (simp add: on_bus_acquired_def consistent_frame)
next
  case (Name_Acquired devs)
  have "consistent (ctx\<lparr>udev := True,
      trace := trace ctx @ [Signal_Connect_Uevent, Query_By_Subsystem ''gpio'']\<rparr>)"
    using assms(2) by (simp add: consistent_def open_handles_append registered_objects_append)
  then have "consistent (state_of (g_list_foreach env devs (ctx\<lparr>udev := True,
      trace := trace ctx @ [Signal_Connect_Uevent, Query_By_Subsystem ''gpio'']\<rparr>)))"
    using assms(1) consistent_g_list_foreach by blast
  then show ?thesis using Name_Acquired by (simp add: on_name_acquired_def)
next
  case (Name_Lost conn closed)
  then show ?thesis
    using assms(2) by (simp add: on_name_lost_def die_def consistent_def open_handles_append
        registered_objects_append)
next
  case (Uevent action dev)
  have "consistent (ctx\<lparr>trace := trace ctx @ [Log_Warning (Unknown_Action action)]\<rparr>)"
    using assms(2) by (simp add: consistent_def open_handles_append registered_objects_append)
  then show ?thesis
    using Uevent assms consistent_register [of env ctx dev] consistent_destroy_dev [of ctx dev]
    by (simp add: on_uevent_def)
qed

lemma consistent_main_loop:
  assumes "fresh_environment env" and "consistent ctx"
  shows "consistent (state_of (main_loop env events ctx))"
  using assms(2)
proof (induction events arbitrary: ctx)
  case Nil
  then show ?case by simp
next
  case (Cons e es)
  have "consistent (state_of (dispatch env e ctx))"
    using assms(1) Cons.prems by (rule consistent_dispatch)
  then show ?case
    using Cons by (cases "dispatch env e ctx") simp_all
qed

lemma consistent_initial: "consistent initial_ctx"
  by (simp add: consistent_def initial_ctx_def open_handles_def registered_objects_def
      registry_valid_def)

lemma consistent_main:
  assumes "fresh_environment env"
  shows "consistent (state_of (main env opts_ok xml_ok events))"
proof -
  have die: "consistent (state_of (die msg initial_ctx))" for msg
    using consistent_initial
    by (simp add: die_def consistent_def open_handles_append registered_objects_append)
  have "consistent (initial_ctx\<lparr>loop := True\<rparr>)"
    using consistent_initial by (simp add: consistent_frame)
  then have run: "consistent (state_of (g_main_loop_run env events initial_ctx))"
    unfolding g_main_loop_run_def using assms consistent_main_loop by blast
  show ?thesis
  proof (cases "opts_ok \<and> xml_ok")
    case False
    then show ?thesis using die by (auto simp: main_def)
  next
    case True
    show ?thesis
    proof (cases "g_main_loop_run env events initial_ctx")
      case (Return c)
      then have "consistent c" using run by simp
      then have "consistent (c\<lparr>chips := [], trace := g_hash_table_destroy (chips c) (trace c)\<rparr>)"
        by (rule consistent_destroy_all)
      then have "consistent (c\<lparr>udev := False, chips := [],
          trace := g_hash_table_destroy (chips c) (trace c)\<rparr>)"
        by (simp add: consistent_def)
      then show ?thesis using True Return by (simp add: main_def)
    qed (use True run in \<open>simp_all add: main_def\<close>)
  qed
qed

lemma registry_valid_g_list_foreach:
  assumes "registry_valid (chips ctx)"
  shows "registry_valid (chips (state_of (g_list_foreach env devs ctx)))"
  using assms
proof (induction devs arbitrary: ctx)
  case Nil
  then show ?case by simp
next
  case (Cons dev devs)
  show ?case
  proof (cases "is_gpiochip_device dev")
    case False
    then show ?thesis using Cons by (simp add: create_chip_list_cb_def)
  next
    case True
    have "registry_valid (chips (state_of (register_chip_object env dev ctx)))"
      using Cons.prems by (rule registry_valid_register)
    then show ?thesis
      using True Cons.IH
      by (cases "register_chip_object env dev ctx") (simp_all add: create_chip_list_cb_def)
  qed
qed

lemma registry_valid_dispatch:
  assumes "registry_valid (chips ctx)"
  shows "registry_valid (chips (state_of (dispatch env e ctx)))"
proof (cases e)
  case (Name_Acquired devs)
  then show ?thesis
    using assms registry_valid_g_list_foreach [of "ctx\<lparr>udev := True,
      trace := trace ctx @ [Signal_Connect_Uevent, Query_By_Subsystem ''gpio'']\<rparr>" env devs]
    by (simp add: on_name_acquired_def)
next
  case (Uevent action dev)
  then show ?thesis
    using assms registry_valid_register [of ctx env dev] registry_valid_destroy_dev [of ctx dev]
    by (simp add: on_uevent_def)
qed (use assms in \<open>simp_all add: on_sigterm_def on_sigint_def on_sighup_def on_bus_acquired_def
      on_name_lost_def die_def\<close>)

lemma registry_valid_main_loop:
  assumes "registry_valid (chips ctx)"
  shows "registry_valid (chips (state_of (main_loop env events ctx)))"
  using assms
proof (induction events arbitrary: ctx)
  case Nil
  then show ?case by simp
next
  case (Cons e es)
  have "registry_valid (chips (state_of (dispatch env e ctx)))"
    using Cons.prems by (rule registry_valid_dispatch)
  then show ?case
    using Cons by (cases "dispatch env e ctx") simp_all
qed

lemma registry_valid_main:
  "registry_valid (chips (state_of (main env opts_ok xml_ok events)))"
proof -
  have "registry_valid (chips (initial_ctx\<lparr>loop := True\<rparr>))"
    by (simp add: initial_ctx_def registry_valid_def)
  then have run: "registry_valid (chips (state_of (g_main_loop_run env events initial_ctx)))"
    unfolding g_main_loop_run_def by (rule registry_valid_main_loop)
  show ?thesis
  proof (cases "opts_ok \<and> xml_ok")
    case False
    then show ?thesis
      by (auto simp: main_def die_def initial_ctx_def registry_valid_def)
  next
    case True
    then show ?thesis
      using run
      by (cases "g_main_loop_run env events initial_ctx")
        (simp_all add: main_def registry_valid_def)
  qed
qed

text \<open>
  Claim C5. Add, remove and destroy-all preserve the registry invariant, and so does any
  run of the main loop and of \<^verbatim>\<open>main\<close>. In any environment every entry of the
  registry has a non-null handle and a non-zero object id. In an environment that hands
  out handles and object ids that are not in use, the entries of the registry are
  moreover exactly the open handles and the registered objects: no entry without its two
  resources, and no open handle or registered object without its entry.
\<close>

theorem registry_invariant:
  "(registry_valid (chips ctx) \<longrightarrow>
      registry_valid (chips (state_of (register_chip_object env dev ctx))) \<and>
      registry_valid (chips (state_of (destroy_chip_dev dev ctx))) \<and>
      registry_valid (chips (state_of (main_loop env events ctx)))) \<and>
   registry_valid (chips (state_of (main env opts_ok xml_ok events))) \<and>
   (fresh_environment env \<and> consistent ctx \<longrightarrow>
      consistent (state_of (register_chip_object env dev ctx)) \<and>
      consistent (state_of (destroy_chip_dev dev ctx)) \<and>
      consistent (ctx\<lparr>chips := [], trace := g_hash_table_destroy (chips ctx) (trace ctx)\<rparr>) \<and>
      consistent (state_of (main_loop env events ctx))) \<and>
   (fresh_environment env \<longrightarrow> consistent (state_of (main env opts_ok xml_ok events)))"
  using registry_valid_register [of ctx env dev] registry_valid_destroy_dev [of ctx dev]
    registry_valid_main_loop [of ctx env events] registry_valid_main [of env opts_ok xml_ok events]
    consistent_register [of env ctx dev] consistent_destroy_dev [of ctx dev]
    consistent_destroy_all [of ctx] consistent_main_loop [of env ctx events]
    consistent_main [of env opts_ok xml_ok events]
  by blast

text \<open>
  Claim C1, amended to the order of the code. Removing a registered device takes the
  entry out of the hash table, then closes the chip handle, then unregisters the bus
  object, all inside the one call. When the call has returned the handle is closed, the
  object is not registered and the name is not in the registry, and the registry
  invariant still holds: a property read that comes after the remove finds no registered
  object backed by a closed handle.
\<close>

theorem remove_order:
  assumes "map_of (chips ctx) (g_udev_device_get_name dev) = Some chip"
    and "entry_valid chip"
  shows "destroy_chip_dev dev ctx =
      Return (ctx\<lparr>chips := AList.delete (g_udev_device_get_name dev) (chips ctx),
        trace := trace ctx @
          [Table_Remove (g_udev_device_get_name dev), Chip_Close (handle chip),
           Unregister_Object (dbus_conn chip) (obj_id chip)]\<rparr>) \<and>
    handle chip \<notin> open_handles (trace (state_of (destroy_chip_dev dev ctx))) \<and>
    object_of chip \<notin> registered_objects (trace (state_of (destroy_chip_dev dev ctx))) \<and>
    map_of (chips (state_of (destroy_chip_dev dev ctx))) (g_udev_device_get_name dev) = None \<and>
    (consistent ctx \<longrightarrow> consistent (state_of (destroy_chip_dev dev ctx)))"
proof -
  have eq: "destroy_chip_dev dev ctx =
    Return (ctx\<lparr>chips := AList.delete (g_udev_device_get_name dev) (chips ctx),
      trace := destroy_chip_object chip
        (trace ctx @ [Table_Remove (g_udev_device_get_name dev)])\<rparr>)"
    using assms(1) by (rule destroy_chip_dev_present)
  have tr: "destroy_chip_object chip (trace ctx @ [Table_Remove (g_udev_device_get_name dev)])
    = trace ctx @ [Table_Remove (g_udev_device_get_name dev), Chip_Close (handle chip),
           Unregister_Object (dbus_conn chip) (obj_id chip)]"
    using assms(2) by (simp add: destroy_chip_object_def entry_valid_def)
  have a: "handle chip \<notin> open_handles (trace (state_of (destroy_chip_dev dev ctx)))"
    unfolding eq by (simp add: open_handles_destroy)
  have b: "object_of chip \<notin> registered_objects (trace (state_of (destroy_chip_dev dev ctx)))"
    unfolding eq by (simp add: registered_objects_destroy)
  have c: "map_of (chips (state_of (destroy_chip_dev dev ctx))) (g_udev_device_get_name dev) = None"
    unfolding eq by (simp add: delete_conv')
  show ?thesis
    using eq tr a b c consistent_destroy_dev [of ctx dev] by simp
qed

section \<open>The exit status\<close>

lemma on_name_acquired_frame:
  "loop (state_of (on_name_acquired env devs ctx)) = loop ctx"
  using g_list_foreach_frame by (simp add: on_name_acquired_def)

lemma on_uevent_frame:
  "loop (state_of (on_uevent env action dev ctx)) = loop ctx"
  using register_chip_object_frame [of env dev ctx] destroy_chip_dev_frame [of dev ctx]
  by (simp add: on_uevent_def)

lemma dispatch_not_running: "dispatch env e ctx \<noteq> Running c"
proof (cases e)
  case (Name_Acquired devs)
  then show ?thesis using g_list_foreach_not_exit by (simp add: on_name_acquired_def)
next
  case (Uevent action dev)
  then show ?thesis
    using register_chip_object_not_exit [of env dev ctx] destroy_chip_dev_not_exit [of dev ctx]
    by (simp add: on_uevent_def)
qed (simp_all add: on_sigterm_def on_sigint_def on_sighup_def on_bus_acquired_def
      on_name_lost_def die_def)

lemma dispatch_loop:
  assumes "dispatch env e ctx = Return ctx'" and "loop ctx"
  shows "loop ctx' \<longleftrightarrow> e \<noteq> SIGTERM \<and> e \<noteq> SIGINT"
proof (cases e)
  case (Name_Acquired devs)
  then show ?thesis
    using assms on_name_acquired_frame [of env devs ctx] by simp
next
  case (Uevent action dev)
  then show ?thesis
    using assms on_uevent_frame [of env action dev ctx] by (auto split: if_splits)
qed (use assms in \<open>auto simp: on_sigterm_def on_sigint_def on_sighup_def on_bus_acquired_def
      on_name_lost_def die_def split: if_splits\<close>)

lemma main_loop_stopped: "\<not> loop ctx \<Longrightarrow> main_loop env events ctx = Return ctx"
  by (cases events) simp_all

lemma main_loop_running_loop:
  "main_loop env pre ctx = Running c \<Longrightarrow> loop c"
proof (induction pre arbitrary: ctx)
  case Nil
  then show ?case by (simp split: if_splits)
next
  case (Cons e es)
  then show ?case
    using dispatch_not_running [of env e ctx c]
    by (cases "dispatch env e ctx") (auto split: if_splits)
qed

lemma main_loop_running_append:
  "main_loop env pre ctx = Running c \<Longrightarrow> main_loop env (pre @ es) ctx = main_loop env es c"
proof (induction pre arbitrary: ctx)
  case Nil
  then show ?case by (simp split: if_splits)
next
  case (Cons e pre)
  then show ?case
    using dispatch_not_running [of env e ctx c]
    by (cases "dispatch env e ctx") (auto split: if_splits)
qed

lemma main_loop_return:
  assumes "main_loop env events ctx = Return c" and "loop ctx"
  shows "\<exists>pre sig post c'. events = pre @ sig # post \<and> (sig = SIGTERM \<or> sig = SIGINT) \<and>
           main_loop env pre ctx = Running c'"
  using assms
proof (induction events arbitrary: ctx)
  case Nil
  then show ?case by simp
next
  case (Cons e es)
  then obtain ctx' where step: "dispatch env e ctx = Return ctx'"
    and rest: "main_loop env es ctx' = Return c"
    by (cases "dispatch env e ctx") auto
  show ?case
  proof (cases "e = SIGTERM \<or> e = SIGINT")
    case True
    have "main_loop env [] ctx = Running ctx" using Cons.prems(2) by simp
    then show ?thesis using True by blast
  next
    case False
    then have "loop ctx'" using dispatch_loop [OF step Cons.prems(2)] by simp
    then obtain pre sig post c' where IH: "es = pre @ sig # post" "sig = SIGTERM \<or> sig = SIGINT"
      "main_loop env pre ctx' = Running c'"
      using Cons.IH [OF rest] by blast
    have "main_loop env (e # pre) ctx = Running c'"
      using step IH(3) Cons.prems(2) by simp
    moreover have "e # es = (e # pre) @ sig # post" using IH(1) by simp
    ultimately show ?thesis using IH(2) by blast
  qed
qed

lemma main_loop_quit:
  assumes "main_loop env pre ctx = Running c" and "sig = SIGTERM \<or> sig = SIGINT"
  shows "main_loop env (pre @ sig # post) ctx =
    Return (c\<lparr>loop := False, trace := trace c @ [Main_Loop_Quit]\<rparr>)"
proof -
  have "loop c" using assms(1) by (rule main_loop_running_loop)
  then have "main_loop env (sig # post) c =
    Return (c\<lparr>loop := False, trace := trace c @ [Main_Loop_Quit]\<rparr>)"
    using assms(2) by (auto simp: on_sigterm_def on_sigint_def main_loop_stopped)
  then show ?thesis using main_loop_running_append [OF assms(1)] by simp
qed

lemma main_loop_name_lost:
  assumes "main_loop env pre ctx = Running c"
  shows "main_loop env (pre @ Name_Lost conn closed # post) ctx =
    Exit EXIT_FAILURE (c\<lparr>trace := trace c @
      [Log_Critical (if conn = NULL then Unable_To_Connect
                     else if closed then Connection_Closed
                     else Name_Lost_On_Bus ''org.gpiod'')]\<rparr>)"
proof -
  have "loop c" using assms(1) by (rule main_loop_running_loop)
  then have "main_loop env (Name_Lost conn closed # post) c =
    Exit EXIT_FAILURE (c\<lparr>trace := trace c @
      [Log_Critical (if conn = NULL then Unable_To_Connect
                     else if closed then Connection_Closed
                     else Name_Lost_On_Bus ''org.gpiod'')]\<rparr>)"
    by (simp add: on_name_lost_def die_def)
  then show ?thesis using main_loop_running_append [OF assms(1)] by simp
qed

lemma dispatch_exit:
  assumes "dispatch env e ctx = Exit n c"
  shows "n = EXIT_FAILURE"
proof (cases e)
  case (Name_Acquired devs)
  then show ?thesis
    using assms g_list_foreach_not_exit [of env devs _ n c] by (simp add: on_name_acquired_def)
next
  case (Uevent action dev)
  then show ?thesis
    using assms register_chip_object_not_exit [of env dev ctx n c]
      destroy_chip_dev_not_exit [of dev ctx n c]
    by (simp add: on_uevent_def split: if_splits)
qed (use assms in \<open>auto simp: on_sigterm_def on_sigint_def on_sighup_def on_bus_acquired_def
      on_name_lost_def die_def split: if_splits\<close>)

lemma main_loop_exit:
  "main_loop env events ctx = Exit n c \<Longrightarrow> n = EXIT_FAILURE"
proof (induction events arbitrary: ctx)
  case Nil
  then show ?case by (simp split: if_splits)
next
  case (Cons e es)
  then show ?case
    using dispatch_exit [of env e ctx n c]
    by (cases "dispatch env e ctx") (auto split: if_splits)
qed

text \<open>
  Claim C9. \<^verbatim>\<open>main\<close> exits with status 0 exactly when the options and the
  introspection XML parsed and a \<^verbatim>\<open>SIGTERM\<close> or \<^verbatim>\<open>SIGINT\<close> arrives while the
  loop is running, which stops the loop. A lost name while the loop is running ends the
  process with \<^verbatim>\<open>EXIT_FAILURE\<close>, whether the connection is null, closed, or the
  name was taken away; so does an introspection XML that does not parse; and
  \<^verbatim>\<open>EXIT_FAILURE\<close> is not 0.
\<close>

theorem exit_status_main:
  "(exit_status (main env opts_ok xml_ok events) = Some 0 \<longleftrightarrow>
      opts_ok \<and> xml_ok \<and>
      (\<exists>pre sig post ctx. events = pre @ sig # post \<and> (sig = SIGTERM \<or> sig = SIGINT) \<and>
         g_main_loop_run env pre initial_ctx = Running ctx)) \<and>
   (g_main_loop_run env pre initial_ctx = Running ctx \<longrightarrow>
      main env True True (pre @ Name_Lost conn closed # post) =
        Exit EXIT_FAILURE (ctx\<lparr>trace := trace ctx @
          [Log_Critical (if conn = NULL then Unable_To_Connect
                         else if closed then Connection_Closed
                         else Name_Lost_On_Bus ''org.gpiod'')]\<rparr>)) \<and>
   main env True False events =
     Exit EXIT_FAILURE (initial_ctx\<lparr>trace := [Log_Critical Error_Parsing_Xml]\<rparr>) \<and>
   EXIT_FAILURE \<noteq> 0"
proof -
  define start where "start = initial_ctx\<lparr>loop := True\<rparr>"
  have start: "loop start" by (simp add: start_def)
  have run: "g_main_loop_run env es initial_ctx = main_loop env es start" for es
    by (simp add: g_main_loop_run_def start_def)
  have a: "exit_status (main env opts_ok xml_ok events) = Some 0 \<longleftrightarrow>
      opts_ok \<and> xml_ok \<and>
      (\<exists>pre sig post ctx. events = pre @ sig # post \<and> (sig = SIGTERM \<or> sig = SIGINT) \<and>
         g_main_loop_run env pre initial_ctx = Running ctx)" (is "?L \<longleftrightarrow> ?R")
  proof
    assume L: ?L
    have ok: "opts_ok \<and> xml_ok"
      using L by (auto simp: main_def die_def EXIT_FAILURE_def split: if_splits)
    have "\<exists>c. main_loop env events start = Return c"
    proof (cases "main_loop env events start")
      case (Exit n c)
      then have "n = EXIT_FAILURE" by (rule main_loop_exit)
      then show ?thesis using L ok Exit by (simp add: main_def run EXIT_FAILURE_def)
    qed (use L ok in \<open>simp_all add: main_def run\<close>)
    then obtain c where "main_loop env events start = Return c" by blast
    then show ?R using ok main_loop_return [OF _ start] by (simp add: run)
  next
    assume R: ?R
    then obtain pre sig post ctx where ev: "events = pre @ sig # post"
      "sig = SIGTERM \<or> sig = SIGINT" "main_loop env pre start = Running ctx"
      by (auto simp: run)
    have "main_loop env events start =
      Return (ctx\<lparr>loop := False, trace := trace ctx @ [Main_Loop_Quit]\<rparr>)"
      unfolding ev(1) using ev(3) ev(2) by (rule main_loop_quit)
    then show ?L using R by (simp add: main_def run EXIT_SUCCESS_def)
  qed
  have b: "g_main_loop_run env pre initial_ctx = Running ctx \<longrightarrow>
      main env True True (pre @ Name_Lost conn closed # post) =
        Exit EXIT_FAILURE (ctx\<lparr>trace := trace ctx @
          [Log_Critical (if conn = NULL then Unable_To_Connect
                         else if closed then Connection_Closed
                         else Name_Lost_On_Bus ''org.gpiod'')]\<rparr>)"
    using main_loop_name_lost [of env pre start ctx conn closed post]
    by (simp add: main_def run)
  have c: "main env True False events =
     Exit EXIT_FAILURE (initial_ctx\<lparr>trace := [Log_Critical Error_Parsing_Xml]\<rparr>)"
    by (simp add: main_def die_def initial_ctx_def)
  have d: "EXIT_FAILURE \<noteq> 0" by (simp add: EXIT_FAILURE_def)
  show ?thesis using a b c d by blast
qed

section \<open>Runs on the concrete machine\<close>

lemmas run_defs = register_chip_object_def destroy_chip_dev_def g_hash_table_remove_def
  g_hash_table_insert_def destroy_chip_object_def on_name_acquired_def create_chip_list_cb_def
  is_gpiochip_device_def on_uevent_def on_sigterm_def on_sigint_def on_sighup_def
  on_bus_acquired_def on_name_lost_def die_def g_main_loop_run_def main_def
  good_env_def no_open_env_def no_register_env_def gpiochip0_def gpiochip1_def gpiochip496_def
  active_ctx_def one_chip_ctx_def connected_ctx_def initial_ctx_def
  open_handles_def registered_objects_def happens_before_def Let_def


theorem add_atomic_witness:
  "map_of (chips active_ctx) (g_udev_device_get_name gpiochip0) = None \<and>
   register_chip_object no_open_env gpiochip0 active_ctx =
     Return (active_ctx\<lparr>trace := [Chip_Open ''gpiochip0'' NULL,
        Log_Warning (Error_Opening_Device ''gpiochip0'')]\<rparr>) \<and>
   register_chip_object no_register_env gpiochip0 active_ctx =
     Return (active_ctx\<lparr>trace := [Chip_Open ''gpiochip0'' 5,
        Register_Object 7 ''/org/gpiod/gpiochip0'' 0, Chip_Close 5,
        Log_Warning Error_Registering_Object]\<rparr>) \<and>
   register_chip_object good_env gpiochip0 active_ctx = Return one_chip_ctx"
  using add_atomic [of active_ctx gpiochip0 no_open_env]
    add_atomic [of active_ctx gpiochip0 no_register_env]
    add_atomic [of active_ctx gpiochip0 good_env]
  by (simp add: good_env_def no_open_env_def no_register_env_def gpiochip0_def active_ctx_def
      one_chip_ctx_def open_handles_def registered_objects_def Let_def)

theorem assertion_fires_witness:
  "aborted (register_chip_object good_env gpiochip0 one_chip_ctx) \<and>
   \<not> aborted (register_chip_object no_open_env gpiochip0 one_chip_ctx) \<and>
   \<not> aborted (register_chip_object good_env gpiochip1 one_chip_ctx) \<and>
   aborted (destroy_chip_dev gpiochip1 one_chip_ctx) \<and>
   \<not> aborted (destroy_chip_dev gpiochip0 one_chip_ctx)"
  using assertion_fires [of good_env gpiochip0 one_chip_ctx]
    assertion_fires [of no_open_env gpiochip0 one_chip_ctx]
    assertion_fires [of good_env gpiochip1 one_chip_ctx]
    assertion_fires [of good_env gpiochip1 one_chip_ctx]
    assertion_fires [of good_env gpiochip0 one_chip_ctx]
  by (simp add: good_env_def no_open_env_def gpiochip0_def gpiochip1_def
      one_chip_ctx_def open_handles_def registered_objects_def Let_def)

text \<open>
  Claim C4 as stated has every add of a name already present fail the assertion. With
  \<open>gpiochip0\<close> in the registry, an add of \<open>gpiochip0\<close> whose open fails logs a
  warning and returns, and so does one whose registration fails, after closing the
  handle; the registry is as it was and no assertion has failed.
\<close>

theorem present_name_returns_counterexample:
  "map_of (chips one_chip_ctx) (g_udev_device_get_name gpiochip0) =
     Some \<lparr>handle = 1, obj_id = 2, dbus_conn = 7\<rparr> \<and>
   register_chip_object no_open_env gpiochip0 one_chip_ctx =
     Return (one_chip_ctx\<lparr>trace := trace one_chip_ctx @
       [Chip_Open ''gpiochip0'' NULL, Log_Warning (Error_Opening_Device ''gpiochip0'')]\<rparr>) \<and>
   \<not> aborted (register_chip_object no_open_env gpiochip0 one_chip_ctx) \<and>
   register_chip_object no_register_env gpiochip0 one_chip_ctx =
     Return (one_chip_ctx\<lparr>trace := trace one_chip_ctx @
       [Chip_Open ''gpiochip0'' 5, Register_Object 7 ''/org/gpiod/gpiochip0'' 0,
        Chip_Close 5, Log_Warning Error_Registering_Object]\<rparr>) \<and>
   \<not> aborted (register_chip_object no_register_env gpiochip0 one_chip_ctx)"
  by (simp add: run_defs)

text \<open>
  Claim C1 as stated has the bus object unregistered before the handle is closed. After
  \<open>gpiochip0\<close> was added, its removal closes handle \<open>1\<close> first and unregisters
  object \<open>2\<close> after it; between the two calls the object is registered and its handle
  is closed.
\<close>

theorem remove_order_counterexample:
  "register_chip_object good_env gpiochip0 active_ctx = Return one_chip_ctx \<and>
   trace (state_of (destroy_chip_dev gpiochip0 one_chip_ctx)) =
     trace one_chip_ctx @ [Table_Remove ''gpiochip0'', Chip_Close 1, Unregister_Object 7 2] \<and>
   happens_before (Chip_Close 1) (Unregister_Object 7 2)
     (trace (state_of (destroy_chip_dev gpiochip0 one_chip_ctx))) \<and>
   \<not> happens_before (Unregister_Object 7 2) (Chip_Close 1)
     (trace (state_of (destroy_chip_dev gpiochip0 one_chip_ctx))) \<and>
   (7, 2) \<in> registered_objects (trace one_chip_ctx @ [Table_Remove ''gpiochip0'', Chip_Close 1]) \<and>
   1 \<notin> open_handles (trace one_chip_ctx @ [Table_Remove ''gpiochip0'', Chip_Close 1])"
  by (simp add: register_chip_object_def destroy_chip_dev_def g_hash_table_remove_def
      g_hash_table_insert_def destroy_chip_object_def
      good_env_def gpiochip0_def active_ctx_def one_chip_ctx_def
      open_handles_def registered_objects_def happens_before_def Let_def)

text \<open>
  Claim C2 as stated has the enumeration and the adds before the subscription. On a
  snapshot of one chip the subscription is the first effect of the callback; the query
  and the insertion come after it.
\<close>

theorem enumerate_first_counterexample:
  "trace (state_of (on_name_acquired good_env [gpiochip0] connected_ctx)) =
     [Signal_Connect_Uevent, Query_By_Subsystem ''gpio'', Chip_Open ''gpiochip0'' 3,
      Register_Object 7 ''/org/gpiod/gpiochip0'' 4, Table_Insert ''gpiochip0''] \<and>
   happens_before Signal_Connect_Uevent (Query_By_Subsystem ''gpio'')
     (trace (state_of (on_name_acquired good_env [gpiochip0] connected_ctx))) \<and>
   happens_before Signal_Connect_Uevent (Table_Insert ''gpiochip0'')
     (trace (state_of (on_name_acquired good_env [gpiochip0] connected_ctx))) \<and>
   \<not> happens_before (Query_By_Subsystem ''gpio'') Signal_Connect_Uevent
     (trace (state_of (on_name_acquired good_env [gpiochip0] connected_ctx))) \<and>
   \<not> happens_before (Table_Insert ''gpiochip0'') Signal_Connect_Uevent
     (trace (state_of (on_name_acquired good_env [gpiochip0] connected_ctx)))"
  by (simp add: on_name_acquired_def create_chip_list_cb_def is_gpiochip_device_def
      register_chip_object_def g_hash_table_insert_def
      good_env_def gpiochip0_def connected_ctx_def
      open_handles_def registered_objects_def happens_before_def Let_def)

theorem remove_order_witness:
  "map_of (chips one_chip_ctx) (g_udev_device_get_name gpiochip0) =
     Some \<lparr>handle = 1, obj_id = 2, dbus_conn = 7\<rparr> \<and>
   entry_valid \<lparr>handle = 1, obj_id = 2, dbus_conn = 7\<rparr> \<and>
   destroy_chip_dev gpiochip0 one_chip_ctx =
     Return (one_chip_ctx\<lparr>chips := [],
       trace := trace one_chip_ctx @
         [Table_Remove ''gpiochip0'', Chip_Close 1, Unregister_Object 7 2]\<rparr>) \<and>
   consistent one_chip_ctx \<and>
   consistent (state_of (destroy_chip_dev gpiochip0 one_chip_ctx))"
proof -
  have a: "map_of (chips one_chip_ctx) (g_udev_device_get_name gpiochip0) =
     Some \<lparr>handle = 1, obj_id = 2, dbus_conn = 7\<rparr>"
    by (simp add: one_chip_ctx_def gpiochip0_def)
  have b: "entry_valid \<lparr>handle = 1, obj_id = 2, dbus_conn = 7\<rparr>"
    by (simp add: entry_valid_def)
  have c: "consistent one_chip_ctx"
    by (simp add: consistent_def one_chip_ctx_def registry_valid_def entry_valid_def
        open_handles_def registered_objects_def object_of_def)
  note r = remove_order [OF a b]
  have d: "destroy_chip_dev gpiochip0 one_chip_ctx =
     Return (one_chip_ctx\<lparr>chips := [],
       trace := trace one_chip_ctx @
         [Table_Remove ''gpiochip0'', Chip_Close 1, Unregister_Object 7 2]\<rparr>)"
    using r by (simp add: one_chip_ctx_def gpiochip0_def)
  have e: "consistent (state_of (destroy_chip_dev gpiochip0 one_chip_ctx))"
    using r c by blast
  show ?thesis
    using a b c d e by blast
qed

theorem subscribe_then_enumerate_witness:
  "trace (state_of (on_name_acquired good_env [gpiochip496, gpiochip0] connected_ctx)) =
     [Signal_Connect_Uevent, Query_By_Subsystem ''gpio'', Chip_Open ''gpiochip0'' 3,
      Register_Object 7 ''/org/gpiod/gpiochip0'' 4, Table_Insert ''gpiochip0''] \<and>
   udev (state_of (on_name_acquired good_env [gpiochip496, gpiochip0] connected_ctx)) \<and>
   \<not> aborted (on_name_acquired good_env [gpiochip496, gpiochip0] connected_ctx)"
  using subscribe_then_enumerate [of good_env "[gpiochip496, gpiochip0]" connected_ctx]
  by (simp add: run_defs)

theorem registry_invariant_witness:
  "fresh_environment good_env \<and> consistent one_chip_ctx \<and>
   registry_valid (chips one_chip_ctx) \<and>
   consistent (state_of (register_chip_object good_env gpiochip1 one_chip_ctx)) \<and>
   consistent (state_of (destroy_chip_dev gpiochip0 one_chip_ctx)) \<and>
   consistent (state_of (main_loop good_env
     [Uevent ''add'' gpiochip1, Uevent ''remove'' gpiochip0] one_chip_ctx)) \<and>
   chips (state_of (main_loop good_env
     [Uevent ''add'' gpiochip1, Uevent ''remove'' gpiochip0] one_chip_ctx)) =
     [(''gpiochip1'', \<lparr>handle = 4, obj_id = 5, dbus_conn = 7\<rparr>)]"
proof -
  have c: "consistent one_chip_ctx"
    by (simp add: consistent_def one_chip_ctx_def registry_valid_def entry_valid_def
        open_handles_def registered_objects_def object_of_def)
  have v: "registry_valid (chips one_chip_ctx)"
    using c by (simp add: consistent_def)
  have r: "chips (state_of (main_loop good_env
     [Uevent ''add'' gpiochip1, Uevent ''remove'' gpiochip0] one_chip_ctx)) =
     [(''gpiochip1'', \<lparr>handle = 4, obj_id = 5, dbus_conn = 7\<rparr>)]"
    by (simp add: run_defs)
  show ?thesis
    using c v r fresh_good_env
      registry_invariant [of one_chip_ctx good_env gpiochip1
        "[Uevent ''add'' gpiochip1, Uevent ''remove'' gpiochip0]" True True]
      registry_invariant [of one_chip_ctx good_env gpiochip0
        "[Uevent ''add'' gpiochip1, Uevent ''remove'' gpiochip0]" True True]
    by simp
qed

theorem enumeration_filter_witness:
  "g_udev_device_get_device_file gpiochip496 = None \<and>
   create_chip_list_cb good_env gpiochip496 connected_ctx = Return connected_ctx \<and>
   on_name_acquired good_env [gpiochip496, gpiochip0] connected_ctx =
     on_name_acquired good_env [gpiochip0] connected_ctx \<and>
   chips (state_of (on_name_acquired good_env [gpiochip496, gpiochip0] connected_ctx)) =
     [(''gpiochip0'', \<lparr>handle = 3, obj_id = 4, dbus_conn = 7\<rparr>)]"
  using enumeration_filter [of gpiochip496 good_env connected_ctx "[gpiochip496, gpiochip0]"]
  by (simp add: run_defs)

theorem exit_status_main_witness:
  "exit_status (main good_env True True
     [Bus_Acquired 7, Name_Acquired [gpiochip0], SIGHUP, SIGTERM]) = Some 0 \<and>
   exit_status (main good_env True True
     [Bus_Acquired 7, Name_Acquired [gpiochip0], SIGINT]) = Some 0 \<and>
   g_main_loop_run good_env [Bus_Acquired 7] initial_ctx =
     Running (initial_ctx\<lparr>loop := True, bus := 7\<rparr>) \<and>
   exit_status (main good_env True True [Bus_Acquired 7, Name_Lost 7 False]) = Some 1 \<and>
   exit_status (main good_env True True [Bus_Acquired 7, Name_Lost 7 True]) = Some 1 \<and>
   exit_status (main good_env True True [Bus_Acquired 7, Name_Lost NULL False]) = Some 1 \<and>
   exit_status (main good_env True False [SIGTERM]) = Some 1 \<and>
   exit_status (main good_env True True [Bus_Acquired 7, Name_Acquired [gpiochip0]]) = None"
proof -
  have run: "g_main_loop_run good_env [Bus_Acquired 7] initial_ctx =
     Running (initial_ctx\<lparr>loop := True, bus := 7\<rparr>)"
    by (simp add: run_defs)
  have a: "exit_status (main good_env True True
     [Bus_Acquired 7, Name_Acquired [gpiochip0], SIGHUP, SIGTERM]) = Some 0"
    by (simp add: run_defs EXIT_SUCCESS_def)
  have b: "exit_status (main good_env True True
     [Bus_Acquired 7, Name_Acquired [gpiochip0], SIGINT]) = Some 0"
    by (simp add: run_defs EXIT_SUCCESS_def)
  have c: "exit_status (main good_env True True
     [Bus_Acquired 7, Name_Acquired [gpiochip0]]) = None"
    by (simp add: run_defs)
  show ?thesis
    using run a b c
      exit_status_main [of good_env True True "[Bus_Acquired 7, Name_Lost 7 False]"
        "[Bus_Acquired 7]" "initial_ctx\<lparr>loop := True, bus := 7\<rparr>" 7 False "[]"]
      exit_status_main [of good_env True True "[SIGTERM]"
        "[Bus_Acquired 7]" "initial_ctx\<lparr>loop := True, bus := 7\<rparr>" 7 True "[]"]
      exit_status_main [of good_env True True "[SIGTERM]"
        "[Bus_Acquired 7]" "initial_ctx\<lparr>loop := True, bus := 7\<rparr>" NULL False "[]"]
    by (simp add: EXIT_FAILURE_def)
qed

end
